theory Spec2Isabelle
  imports Main "HOL-Library.Multiset"
begin

section \<open>Python values and exceptions\<close>

text \<open>
  The exceptions that \<^verbatim>\<open>eval_audio/evaluate_st.py\<close> can raise in the parts embedded here.
  A computation that may raise returns \<open>py_error + 'a\<close>, with \<open>Inl\<close> for the exception.
\<close>

datatype py_error =
  AssertionError | ZeroDivisionError | IndexError | KeyError | NotImplementedError | ValueError
  | ProcessGroupError

text \<open>Python's \<^verbatim>\<open>xs[:k]\<close>: a negative bound counts from the end, and the slice never raises.\<close>

definition py_slice_to :: "'a list \<Rightarrow> int \<Rightarrow> 'a list" where
  "py_slice_to xs k =
     (if k < 0 then take (nat (int (length xs) + k)) xs else take (nat k) xs)"

text \<open>
  Python's \<^verbatim>\<open>xs[i]\<close> on a list: \<^verbatim>\<open>IndexError\<close> outside \<open>[-len, len)\<close>, and an index
  below zero is read from the end.
\<close>

definition py_index :: "'a list \<Rightarrow> int \<Rightarrow> py_error + 'a" where
  "py_index xs i =
     (if int (length xs) \<le> i \<or> i < - int (length xs) then Inl IndexError
      else if i < 0 then Inr (xs ! nat (int (length xs) + i))
      else Inr (xs ! nat i))"

text \<open>Python's \<^verbatim>\<open>range(b, e)\<close> object: its elements and its \<^verbatim>\<open>len\<close>.\<close>

datatype py_range = Range (start: int) (stop: int)

fun range_list :: "py_range \<Rightarrow> int list" where
  "range_list (Range b e) = [b..e - 1]"

fun range_len :: "py_range \<Rightarrow> int" where
  "range_len (Range b e) = (if b < e then e - b else 0)"

section \<open>InferenceSampler\<close>

text \<open>
  \<^verbatim>\<open>InferenceSampler._get_local_indices(total_size, world_size, rank)\<close>.
  \<^verbatim>\<open>//\<close> and \<^verbatim>\<open>%\<close> are floor division and the remainder with the divisor's sign, as
  \<open>div\<close> and \<open>mod\<close> on \<open>int\<close> are; both raise on a zero divisor.
\<close>

definition get_local_indices :: "int \<Rightarrow> int \<Rightarrow> int \<Rightarrow> py_error + py_range" where
  "get_local_indices total_size world_size rank =
     (if world_size = 0 then Inl ZeroDivisionError
      else
        let shard_size = total_size div world_size;
            left = total_size mod world_size;
            shard_sizes = map (\<lambda>r. shard_size + (if r < left then 1 else 0)) [0..world_size - 1];
            begin_i = sum_list (py_slice_to shard_sizes rank);
            end_i = min (sum_list (py_slice_to shard_sizes (rank + 1))) total_size
        in Inr (Range begin_i end_i))"

text \<open>
  The sampler object. \<^verbatim>\<open>torch.distributed.get_rank()\<close> and \<^verbatim>\<open>get_world_size()\<close> read the
  process group; the embedding passes both as arguments of the constructor.
\<close>

record InferenceSampler =
  size_f :: int
  rank_f :: int
  world_size_f :: int
  local_indices :: py_range

definition InferenceSampler_init :: "int \<Rightarrow> int \<Rightarrow> int \<Rightarrow> py_error + InferenceSampler" where
  "InferenceSampler_init sz world_size rank =
     (if \<not> sz > 0 then Inl AssertionError
      else case get_local_indices sz world_size rank of
             Inl e \<Rightarrow> Inl e
           | Inr rg \<Rightarrow> Inr \<lparr>size_f = sz, rank_f = rank, world_size_f = world_size,
                             local_indices = rg\<rparr>)"

definition sampler_iter :: "InferenceSampler \<Rightarrow> int list" where
  "sampler_iter s = range_list (local_indices s)"

definition sampler_len :: "InferenceSampler \<Rightarrow> int" where
  "sampler_len s = range_len (local_indices s)"

text \<open>
  Python's \<^verbatim>\<open>s.split(c)\<close> for a one-character separator: every occurrence separates, so
  the result has one more piece than there are separators and is never empty.
\<close>

fun py_split :: "char \<Rightarrow> string \<Rightarrow> string list" where
  "py_split c [] = [[]]"
| "py_split c (x # xs) =
     (if x = c then [] # py_split c xs
      else (case py_split c xs of w # ws \<Rightarrow> (x # w) # ws | [] \<Rightarrow> [[x]]))"

text \<open>Running a fallible function over a list, stopping at the first exception.\<close>

fun map_result :: "('a \<Rightarrow> py_error + 'b) \<Rightarrow> 'a list \<Rightarrow> py_error + 'b list" where
  "map_result f [] = Inr []"
| "map_result f (x # xs) =
     (case f x of
        Inl e \<Rightarrow> Inl e
      | Inr y \<Rightarrow> (case map_result f xs of Inl e \<Rightarrow> Inl e | Inr ys \<Rightarrow> Inr (y # ys)))"

section \<open>AudioDatasetModified\<close>

text \<open>
  A row of the loaded dataset: \<^verbatim>\<open>data['audio']['array']\<close>, \<^verbatim>\<open>data['audio']['path']\<close>,
  \<^verbatim>\<open>data['audio']['sampling_rate']\<close> and \<^verbatim>\<open>data['translation']\<close>.
\<close>

record 'a row =
  audio_array :: 'a
  audio_path :: string
  audio_sampling_rate :: int
  translation :: string

record 'a AudioDatasetModified =
  ds :: "'a row list"
  prompt :: string
  source :: string
  limit :: int

text \<open>
  The constructor. \<^verbatim>\<open>load_dataset\<close> is the collaborator that fetches a corpus: given the
  corpus and configuration names it yields the splits by name; \<^verbatim>\<open>ds[split]\<close> raises on a
  split that is not there.
\<close>

definition AudioDatasetModified_init ::
  "(string \<Rightarrow> string \<Rightarrow> (string \<rightharpoonup> 'a row list)) \<Rightarrow> string \<Rightarrow> string \<Rightarrow> int
     \<Rightarrow> py_error + 'a AudioDatasetModified" where
  "AudioDatasetModified_init load_dataset dname split_name lim =
     (if dname = ''en_de'' then
        (case load_dataset ''fixie-ai/covost2'' ''en_de'' split_name of
           None \<Rightarrow> Inl KeyError
         | Some rows \<Rightarrow>
             Inr \<lparr>ds = rows,
                  prompt = ''<|audio_bos|><|AUDIO|><|audio_eos|> Detect the language and translate the speech into German: <|en|>'',
                  source = ''covost_en_de_dev'', limit = lim\<rparr>)
      else if dname = ''en_zh'' then
        (case load_dataset ''fixie-ai/covost2'' ''en_zh-CN'' split_name of
           None \<Rightarrow> Inl KeyError
         | Some rows \<Rightarrow>
             Inr \<lparr>ds = rows,
                  prompt = ''<|audio_bos|><|AUDIO|><|audio_eos|> Detect the language and translate the speech into Mandarin: <|en|>'',
                  source = ''covost_en_zh_dev'', limit = lim\<rparr>)
      else Inl NotImplementedError)"

text \<open>\<^verbatim>\<open>AudioDatasetModified.__len__\<close>.\<close>

definition dataset_len :: "'a AudioDatasetModified \<Rightarrow> int" where
  "dataset_len d =
     (if limit d > 0 then min (limit d) (int (length (ds d))) else int (length (ds d)))"

text \<open>\<^verbatim>\<open>AudioDatasetModified.__getitem__\<close>: the dictionary it returns, as a record.\<close>

record 'a item =
  i_audio :: 'a
  i_sampling_rate :: int
  i_prompt :: string
  i_source :: string
  i_audio_path :: string
  i_gt :: string

definition dataset_getitem :: "'a AudioDatasetModified \<Rightarrow> int \<Rightarrow> py_error + 'a item" where
  "dataset_getitem d idx =
     (case py_index (ds d) idx of
        Inl e \<Rightarrow> Inl e
      | Inr data \<Rightarrow>
          Inr \<lparr>i_audio = audio_array data, i_sampling_rate = audio_sampling_rate data,
               i_prompt = prompt d, i_source = source d, i_audio_path = audio_path data,
               i_gt = translation data\<rparr>)"

section \<open>Batches\<close>

text \<open>
  \<^verbatim>\<open>collate_fn_modified(inputs, processor)\<close>. The processor is a collaborator: it turns the
  prompts and the audio arrays of a batch into the model's input.
\<close>

definition collate_fn_modified ::
  "('a item) list \<Rightarrow> (string list \<Rightarrow> 'a list \<Rightarrow> 'inp)
     \<Rightarrow> 'inp \<times> string list \<times> string list \<times> string list" where
  "collate_fn_modified inputs processor =
     (let input_texts = map i_prompt inputs;
          source_l = map i_source inputs;
          gt_l = map i_gt inputs;
          audio_path_l = map i_audio_path inputs;
          input_audios = map i_audio inputs
      in (processor input_texts input_audios, audio_path_l, source_l, gt_l))"

text \<open>
  The \<^verbatim>\<open>DataLoader\<close> of the main program (\<^verbatim>\<open>drop_last=False\<close>): the sampler's indices in
  consecutive groups of \<^verbatim>\<open>batch_size\<close>, the last one possibly shorter; each group is fetched
  from the dataset and collated. A batch size that is not positive is refused.
\<close>

function chunk :: "nat \<Rightarrow> 'a list \<Rightarrow> 'a list list" where
  "chunk n xs = (if n = 0 \<or> xs = [] then [] else take n xs # chunk n (drop n xs))"
  by pat_completeness auto
termination
  by (relation "measure (\<lambda>(n, xs). length xs)") auto

definition data_loader ::
  "'a AudioDatasetModified \<Rightarrow> InferenceSampler \<Rightarrow> int \<Rightarrow> (string list \<Rightarrow> 'a list \<Rightarrow> 'inp)
     \<Rightarrow> py_error + ('inp \<times> string list \<times> string list \<times> string list) list" where
  "data_loader dataset sampler batch_size processor =
     (if batch_size \<le> 0 then Inl ValueError
      else map_result
             (\<lambda>idxs. case map_result (dataset_getitem dataset) idxs of
                        Inl e \<Rightarrow> Inl e
                      | Inr inputs \<Rightarrow> Inr (collate_fn_modified inputs processor))
             (chunk (nat batch_size) (sampler_iter sampler)))"

section \<open>The worker loop\<close>

text \<open>
  The four lists a worker accumulates. \<^verbatim>\<open>infer\<close> stands for the model: generation, the
  removal of the prompt tokens and \<^verbatim>\<open>batch_decode\<close>, from the input of a batch to the
  decoded texts.
\<close>

record worker_result =
  gts :: "string list"
  sources :: "string list"
  rets :: "string list"
  audio_paths :: "string list"

definition worker_step ::
  "('inp \<Rightarrow> string list) \<Rightarrow> worker_result \<Rightarrow> 'inp \<times> string list \<times> string list \<times> string list
     \<Rightarrow> worker_result" where
  "worker_step infer acc batch =
     (case batch of (inputs, audio_path_l, source_l, gt_l) \<Rightarrow>
        let output = infer inputs
        in \<lparr>gts = gts acc @ gt_l, sources = sources acc @ source_l,
            rets = rets acc @ output, audio_paths = audio_paths acc @ audio_path_l\<rparr>)"

definition worker_loop ::
  "('inp \<Rightarrow> string list) \<Rightarrow> ('inp \<times> string list \<times> string list \<times> string list) list
     \<Rightarrow> worker_result" where
  "worker_loop infer batches =
     foldl (worker_step infer) \<lparr>gts = [], sources = [], rets = [], audio_paths = []\<rparr> batches"

text \<open>The command line arguments the embedded part of the main program reads.\<close>

record args =
  args_dataset :: string
  args_split :: string
  args_batch_size :: int
  args_limit :: int

text \<open>\<^verbatim>\<open>InferenceSampler(len(dataset))\<close>, the sampler the main program hands to the loader.\<close>

definition main_sampler :: "'a AudioDatasetModified \<Rightarrow> int \<Rightarrow> int \<Rightarrow> py_error + InferenceSampler" where
  "main_sampler dataset world_size rank = InferenceSampler_init (dataset_len dataset) world_size rank"

text \<open>The main program of one process, up to the barrier.\<close>

definition worker_main ::
  "(string \<Rightarrow> string \<Rightarrow> (string \<rightharpoonup> 'a row list)) \<Rightarrow> (string list \<Rightarrow> 'a list \<Rightarrow> 'inp)
     \<Rightarrow> ('inp \<Rightarrow> string list) \<Rightarrow> args \<Rightarrow> int \<Rightarrow> int \<Rightarrow> py_error + worker_result" where
  "worker_main load_dataset processor infer a world_size rank =
     (case AudioDatasetModified_init load_dataset (args_dataset a) (args_split a) (args_limit a) of
        Inl e \<Rightarrow> Inl e
      | Inr dataset \<Rightarrow>
          (case main_sampler dataset world_size rank of
             Inl e \<Rightarrow> Inl e
           | Inr sampler \<Rightarrow>
               (case data_loader dataset sampler (args_batch_size a) processor of
                  Inl e \<Rightarrow> Inl e
                | Inr batches \<Rightarrow> Inr (worker_loop infer batches))))"

section \<open>Gathering and merging\<close>

text \<open>
  \<^verbatim>\<open>all_gather_object\<close> fills position \<open>r\<close> of the output list with the object of rank \<open>r\<close>:
  the gathered value is the list of the workers' results in rank order. Each of the four
  gathered lists is then flattened by \<^verbatim>\<open>itertools.chain.from_iterable\<close>.
\<close>

record merged =
  merged_gts :: "string list"
  merged_sources :: "string list"
  merged_responses :: "string list"
  merged_audio_paths :: "string list"

definition merge_gathered :: "worker_result list \<Rightarrow> merged" where
  "merge_gathered per_rank =
     \<lparr>merged_gts = concat (map gts per_rank),
      merged_sources = concat (map sources per_rank),
      merged_responses = concat (map rets per_rank),
      merged_audio_paths = concat (map audio_paths per_rank)\<rparr>"

section \<open>The coordinator: results, groups and scores\<close>

record result_item =
  r_gt :: string
  r_response :: string
  r_source :: string
  r_audio_path :: string

text \<open>The loop over \<^verbatim>\<open>zip\<close> of the four merged lists; \<^verbatim>\<open>zip\<close> stops at the shortest.\<close>

definition build_results :: "merged \<Rightarrow> result_item list" where
  "build_results m =
     map (\<lambda>(g, resp, src, ap). \<lparr>r_gt = g, r_response = resp, r_source = src, r_audio_path = ap\<rparr>)
       (zip (merged_gts m) (zip (merged_responses m) (zip (merged_sources m) (merged_audio_paths m))))"

text \<open>
  \<^verbatim>\<open>results_dict.setdefault(source, []).append(item)\<close> on a dictionary kept as an
  association list in insertion order, which is the order a Python dictionary iterates in.
\<close>

fun setdefault_append ::
  "(string \<times> result_item list) list \<Rightarrow> string \<Rightarrow> result_item \<Rightarrow> (string \<times> result_item list) list" where
  "setdefault_append [] k x = [(k, [x])]"
| "setdefault_append ((k', v) # d) k x =
     (if k' = k then (k', v @ [x]) # d else (k', v) # setdefault_append d k x)"

definition group_results :: "result_item list \<Rightarrow> (string \<times> result_item list) list" where
  "group_results results = foldl (\<lambda>d it. setdefault_append d (r_source it) it) [] results"

text \<open>The tokenizer name chosen from \<^verbatim>\<open>source.split("_")[-2]\<close>.\<close>

definition tokenize_of :: "string \<Rightarrow> py_error + string" where
  "tokenize_of src =
     (case py_index (py_split CHR ''_'' src) (- 2) of
        Inl e \<Rightarrow> Inl e
      | Inr text_lan \<Rightarrow>
          Inr (if text_lan = ''ja'' then ''ja-mecab''
               else if text_lan = ''zh'' then ''zh''
               else ''13a''))"

text \<open>
  One printed line of the report, with the tokenizer name that was handed to
  \<^verbatim>\<open>sacrebleu.corpus_bleu\<close>. The scorer is a collaborator, a function of the hypotheses,
  the list of reference lists and the tokenizer name.
\<close>

record 'score report =
  rep_source :: string
  rep_tokenize :: string
  rep_cnt :: int
  rep_bleu :: 'score

definition score_group ::
  "(string list \<Rightarrow> string list list \<Rightarrow> string \<Rightarrow> 'score) \<Rightarrow> string \<times> result_item list
     \<Rightarrow> py_error + 'score report" where
  "score_group corpus_bleu g =
     (case g of (src, results_list) \<Rightarrow>
        (case tokenize_of src of
           Inl e \<Rightarrow> Inl e
         | Inr text_lan \<Rightarrow>
             let refs = map r_gt results_list;
                 hyps = map r_response results_list;
                 bleu = corpus_bleu hyps [refs] text_lan
             in Inr \<lparr>rep_source = src, rep_tokenize = text_lan, rep_cnt = int (length refs),
                     rep_bleu = bleu\<rparr>))"

definition score_groups ::
  "(string list \<Rightarrow> string list list \<Rightarrow> string \<Rightarrow> 'score) \<Rightarrow> result_item list
     \<Rightarrow> py_error + 'score report list" where
  "score_groups corpus_bleu results = map_result (score_group corpus_bleu) (group_results results)"

text \<open>
  What rank 0 does after the gather: the results file is written first, the groups are
  scored afterwards, so an exception of the scoring loop leaves the file behind.
\<close>

record 'score outcome =
  results_file :: "result_item list"
  scores :: "py_error + 'score report list"

definition evaluate ::
  "(string list \<Rightarrow> string list list \<Rightarrow> string \<Rightarrow> 'score) \<Rightarrow> worker_result list \<Rightarrow> 'score outcome" where
  "evaluate corpus_bleu per_rank =
     (let results = build_results (merge_gathered per_rank)
      in \<lparr>results_file = results, scores = score_groups corpus_bleu results\<rparr>)"

text \<open>
  A whole run on \<open>world_size\<close> processes, seen from rank 0: every process runs its part,
  an exception in any of them ends the run, otherwise the gathered results are evaluated.
\<close>

definition main_run ::
  "(string \<Rightarrow> string \<Rightarrow> (string \<rightharpoonup> 'a row list)) \<Rightarrow> (string list \<Rightarrow> 'a list \<Rightarrow> 'inp)
     \<Rightarrow> ('inp \<Rightarrow> string list) \<Rightarrow> (string list \<Rightarrow> string list list \<Rightarrow> string \<Rightarrow> 'score)
     \<Rightarrow> args \<Rightarrow> int \<Rightarrow> py_error + 'score outcome" where
  "main_run load_dataset processor infer corpus_bleu a world_size =
     (case map_result (worker_main load_dataset processor infer a world_size) [0..world_size - 1] of
        Inl e \<Rightarrow> Inl e
      | Inr per_rank \<Rightarrow> Inr (evaluate corpus_bleu per_rank))"

text \<open>
  A whole run is meant for \<open>world_size \<ge> 1\<close>: a process group has at least one member.
\<close>

section \<open>The process group\<close>






section \<open>Notions used in the statements\<close>

text \<open>The closed form of the first index of rank \<open>r\<close>.\<close>

definition shard_begin :: "int \<Rightarrow> int \<Rightarrow> int \<Rightarrow> int" where
  "shard_begin n w r = r * (n div w) + min r (n mod w)"

text \<open>The indices a rank iterates over, and how many they are.\<close>

definition shard_set :: "int \<Rightarrow> int \<Rightarrow> int \<Rightarrow> int set" where
  "shard_set n w r = (case get_local_indices n w r of Inl e \<Rightarrow> {} | Inr rg \<Rightarrow> set (range_list rg))"

definition shard_len :: "int \<Rightarrow> int \<Rightarrow> int \<Rightarrow> int" where
  "shard_len n w r = (case get_local_indices n w r of Inl e \<Rightarrow> 0 | Inr rg \<Rightarrow> range_len rg)"

text \<open>
  The tags of the results in the order of their first occurrence, which is the order of
  the keys of \<^verbatim>\<open>results_dict\<close>, and the results that carry a tag.
\<close>

definition group_keys :: "result_item list \<Rightarrow> string list" where
  "group_keys results = rev (remdups (rev (map r_source results)))"

definition group_members :: "result_item list \<Rightarrow> string \<Rightarrow> result_item list" where
  "group_members results k = filter (\<lambda>it. r_source it = k) results"

text \<open>A small corpus and collaborators for concrete runs.\<close>

definition example_rows :: "nat row list" where
  "example_rows =
     [\<lparr>audio_array = 1, audio_path = ''a.wav'', audio_sampling_rate = 16000, translation = ''eins''\<rparr>,
      \<lparr>audio_array = 2, audio_path = ''b.wav'', audio_sampling_rate = 16000, translation = ''zwei''\<rparr>,
      \<lparr>audio_array = 3, audio_path = ''c.wav'', audio_sampling_rate = 16000, translation = ''drei''\<rparr>]"

definition example_load :: "string \<Rightarrow> string \<Rightarrow> (string \<rightharpoonup> nat row list)" where
  "example_load corpus config = [''validation'' \<mapsto> example_rows]"


text \<open>A processor that keeps the audio arrays, and a model that loses the last answer.\<close>

definition example_processor :: "string list \<Rightarrow> nat list \<Rightarrow> nat list" where
  "example_processor texts audios = audios"

definition dropping_infer :: "nat list \<Rightarrow> string list" where
  "dropping_infer inputs = map (\<lambda>a. ''hyp'') (butlast inputs)"

definition faithful_infer :: "nat list \<Rightarrow> string list" where
  "faithful_infer inputs = map (\<lambda>a. ''hyp'') inputs"

definition example_bleu :: "string list \<Rightarrow> string list list \<Rightarrow> string \<Rightarrow> nat" where
  "example_bleu hyps refs tok = length hyps"

text \<open>A scorer that returns what it was handed.\<close>

definition recording_bleu ::
  "string list \<Rightarrow> string list list \<Rightarrow> string \<Rightarrow> string list \<times> string list list \<times> string" where
  "recording_bleu hyps refs tok = (hyps, refs, tok)"

definition example_items :: "result_item list" where
  "example_items =
     [\<lparr>r_gt = ''eins'', r_response = ''one'', r_source = ''covost_en_de_dev'', r_audio_path = ''a.wav''\<rparr>,
      \<lparr>r_gt = ''yi'', r_response = ''uno'', r_source = ''covost_en_zh_dev'', r_audio_path = ''b.wav''\<rparr>,
      \<lparr>r_gt = ''er'', r_response = ''due'', r_source = ''covost_en_zh_dev'', r_audio_path = ''c.wav''\<rparr>,
      \<lparr>r_gt = ''zwei'', r_response = ''two'', r_source = ''covost_en_de_dev'', r_audio_path = ''d.wav''\<rparr>]"

definition example_args :: "int \<Rightarrow> int \<Rightarrow> args" where
  "example_args bs lim =
     \<lparr>args_dataset = ''en_de'', args_split = ''validation'', args_batch_size = bs, args_limit = lim\<rparr>"

section \<open>Concrete shard plans\<close>

text \<open>
  C8: for N = 10 and W = 3 the ranks 0, 1, 2 get the ranges [0,4), [4,7), [7,10), of sizes
  4, 3, 3; for N = 5 and W = 5 the ranks 0..4 get [0,1), [1,2), [2,3), [3,4), [4,5), each of
  size 1.
\<close>

theorem shard_plan_scenarios:
  "map (get_local_indices 10 3) [0, 1, 2] = [Inr (Range 0 4), Inr (Range 4 7), Inr (Range 7 10)]
   \<and> map (\<lambda>r. map_sum id range_len (get_local_indices 10 3 r)) [0, 1, 2] = [Inr 4, Inr 3, Inr 3]
   \<and> map (\<lambda>r. map_sum id range_list (get_local_indices 10 3 r)) [0, 1, 2]
       = [Inr [0, 1, 2, 3], Inr [4, 5, 6], Inr [7, 8, 9]]
   \<and> map (get_local_indices 5 5) [0, 1, 2, 3, 4]
       = [Inr (Range 0 1), Inr (Range 1 2), Inr (Range 2 3), Inr (Range 3 4), Inr (Range 4 5)]
   \<and> map (\<lambda>r. map_sum id range_len (get_local_indices 5 5 r)) [0, 1, 2, 3, 4]
       = [Inr 1, Inr 1, Inr 1, Inr 1, Inr 1]"
  by code_simp

section \<open>The shard plan is a partition\<close>

text \<open>
  The cumulative sums of the shard sizes have the closed form \<open>shard_begin\<close>; the range
  of rank \<open>r\<close> is then \<open>[shard_begin r, shard_begin (r + 1))\<close>, and \<open>shard_begin\<close> is
  monotone from 0 to the total size.
\<close>

lemma take_upto_prefix:
  assumes "0 \<le> k" "k \<le> w"
  shows "take (nat k) [0..w - 1] = [0..k - 1]"
proof (cases "k = 0")
  case True
  then show ?thesis by simp
next
  case False
  with assms have "[0..w - 1] = [0..k - 1] @ [k - 1 + 1..w - 1]"
    by (intro upto_split2) auto
  moreover have "length [0..k - 1] = nat k" using assms by simp
  ultimately show ?thesis by simp
qed

lemma sum_list_shard_sizes:
  assumes "0 \<le> k" "0 \<le> l"
  shows "sum_list (map (\<lambda>r. q + (if r < l then 1 else 0)) [0..k - 1]) = k * q + min k (l::int)"
  using assms(1)
proof (induction k rule: int_ge_induct)
  case base
  then show ?case using assms(2) by simp
next
  case (step i)
  have "[0..i + 1 - 1] = [0..i - 1] @ [i]"
    using step.hyps upto_rec2 [of 0 i] by simp
  with step.IH show ?case
    by (simp add: algebra_simps min_def)
qed

lemma shard_begin_bound:
  assumes "0 \<le> n" "0 < w" "0 \<le> r" "r \<le> w"
  shows "shard_begin n w r \<le> n"
proof -
  have "0 \<le> n div w" using assms(1,2) by (simp add: pos_imp_zdiv_nonneg_iff)
  then have "r * (n div w) \<le> w * (n div w)" using assms by (intro mult_right_mono) auto
  moreover have "w * (n div w) + n mod w = n" by simp
  ultimately show ?thesis unfolding shard_begin_def by linarith
qed

lemma get_local_indices_eq:
  assumes "0 \<le> n" "0 < w" "0 \<le> r" "r < w"
  shows "get_local_indices n w r = Inr (Range (shard_begin n w r) (shard_begin n w (r + 1)))"
proof -
  let ?q = "n div w" and ?l = "n mod w"
  let ?sizes = "map (\<lambda>r. ?q + (if r < ?l then 1 else 0)) [0..w - 1]"
  have l0: "0 \<le> ?l" using assms(2) by simp
  have pre: "sum_list (py_slice_to ?sizes k) = shard_begin n w k" if "0 \<le> k" "k \<le> w" for k
  proof -
    have "py_slice_to ?sizes k = map (\<lambda>r. ?q + (if r < ?l then 1 else 0)) [0..k - 1]"
      using that by (simp add: py_slice_to_def take_map take_upto_prefix)
    then show ?thesis using that l0 by (simp add: sum_list_shard_sizes shard_begin_def)
  qed
  have "shard_begin n w (r + 1) \<le> n"
    using assms by (intro shard_begin_bound) auto
  then show ?thesis
    using assms pre [of r] pre [of "r + 1"] by (simp add: get_local_indices_def Let_def)
qed

lemma shard_begin_step:
  "shard_begin n w (r + 1) = shard_begin n w r + (n div w + (if r < n mod w then 1 else 0))"
  by (simp add: shard_begin_def algebra_simps min_def)

lemma shard_begin_mono:
  assumes "0 \<le> n" "0 < w" "r \<le> r'"
  shows "shard_begin n w r \<le> shard_begin n w r'"
proof -
  have "0 \<le> n div w" using assms(1,2) by (simp add: pos_imp_zdiv_nonneg_iff)
  then have "r * (n div w) \<le> r' * (n div w)" using assms(3) by (intro mult_right_mono) auto
  moreover have "min r (n mod w) \<le> min r' (n mod w)" using assms(3) by simp
  ultimately show ?thesis unfolding shard_begin_def by linarith
qed

lemma shard_begin_0: "0 < w \<Longrightarrow> shard_begin n w 0 = 0"
  by (simp add: shard_begin_def)

lemma shard_begin_all: "0 < w \<Longrightarrow> shard_begin n w w = n"
proof -
  assume "0 < w"
  then have "n mod w < w" by simp
  then have "min w (n mod w) = n mod w" by simp
  then show ?thesis by (simp add: shard_begin_def)
qed

lemma shard_set_eq:
  assumes "0 \<le> n" "0 < w" "0 \<le> r" "r < w"
  shows "shard_set n w r = {shard_begin n w r..<shard_begin n w (r + 1)}"
  using get_local_indices_eq [OF assms] by (auto simp: shard_set_def)

lemma shard_len_eq:
  assumes "0 \<le> n" "0 < w" "0 \<le> r" "r < w"
  shows "shard_len n w r = n div w + (if r < n mod w then 1 else 0)"
proof -
  have "0 \<le> n div w" using assms(1,2) by (simp add: pos_imp_zdiv_nonneg_iff)
  then show ?thesis
    using get_local_indices_eq [OF assms] by (simp add: shard_len_def shard_begin_step)
qed

lemma shard_exists:
  assumes "0 \<le> k" "0 < w" "0 \<le> i"
  shows "i < shard_begin n w k \<longrightarrow>
         (\<exists>r. 0 \<le> r \<and> r < k \<and> shard_begin n w r \<le> i \<and> i < shard_begin n w (r + 1))"
  using assms(1)
proof (induction k rule: int_ge_induct)
  case base
  then show ?case using assms(2,3) by (simp add: shard_begin_0)
next
  case (step k)
  show ?case
  proof
    assume less: "i < shard_begin n w (k + 1)"
    show "\<exists>r. 0 \<le> r \<and> r < k + 1 \<and> shard_begin n w r \<le> i \<and> i < shard_begin n w (r + 1)"
    proof (cases "i < shard_begin n w k")
      case True
      with step.IH obtain r
        where "0 \<le> r" "r < k" "shard_begin n w r \<le> i" "i < shard_begin n w (r + 1)"
        by blast
      then have "0 \<le> r \<and> r < k + 1 \<and> shard_begin n w r \<le> i \<and> i < shard_begin n w (r + 1)"
        by simp
      then show ?thesis ..
    next
      case False
      with less step.hyps
      have "0 \<le> k \<and> k < k + 1 \<and> shard_begin n w k \<le> i \<and> i < shard_begin n w (k + 1)"
        by simp
      then show ?thesis ..
    qed
  qed
qed

lemma shard_unique:
  assumes "0 \<le> n" "0 < w"
    and "shard_begin n w r \<le> i" "i < shard_begin n w (r + 1)"
    and "shard_begin n w r' \<le> i" "i < shard_begin n w (r' + 1)"
  shows "r = r'"
proof (rule ccontr)
  assume "r \<noteq> r'"
  then consider "r + 1 \<le> r'" | "r' + 1 \<le> r" by linarith
  then show False
  proof cases
    case 1
    from shard_begin_mono [OF assms(1,2) 1] assms(4,5) show False by linarith
  next
    case 2
    from shard_begin_mono [OF assms(1,2) 2] assms(3,6) show False by linarith
  qed
qed

lemma shard_owner:
  assumes "0 < n" "0 < w" "0 \<le> i" "i < n"
  shows "\<exists>!r. 0 \<le> r \<and> r < w \<and> i \<in> shard_set n w r"
proof -
  have n0: "0 \<le> n" using assms(1) by simp
  have "i < shard_begin n w w" using assms by (simp add: shard_begin_all)
  moreover have "0 \<le> w" using assms(2) by simp
  ultimately obtain r
    where r: "0 \<le> r" "r < w" "shard_begin n w r \<le> i" "i < shard_begin n w (r + 1)"
    using shard_exists [OF _ assms(2,3), of w n] by blast
  show ?thesis
  proof (rule ex1I [of _ r])
    show "0 \<le> r \<and> r < w \<and> i \<in> shard_set n w r"
      using r shard_set_eq [OF n0 assms(2) r(1,2)] by simp
  next
    fix r'
    assume a: "0 \<le> r' \<and> r' < w \<and> i \<in> shard_set n w r'"
    then have "shard_begin n w r' \<le> i" "i < shard_begin n w (r' + 1)"
      using shard_set_eq [OF n0 assms(2), of r'] by auto
    then show "r' = r"
      using shard_unique [OF n0 assms(2) _ _ r(3,4), of r'] by simp
  qed
qed

lemma shard_set_within:
  assumes "0 \<le> n" "0 < w" "0 \<le> r" "r < w"
  shows "shard_set n w r \<subseteq> {0..<n}"
proof -
  have "0 \<le> shard_begin n w r"
    using shard_begin_mono [OF assms(1,2) assms(3)] assms(2) by (simp add: shard_begin_0)
  moreover have "shard_begin n w (r + 1) \<le> n"
    using assms by (intro shard_begin_bound) auto
  ultimately show ?thesis
    using shard_set_eq [OF assms] by auto
qed

text \<open>
  C1: for every N > 0 and W > 0, rank \<open>r\<close> of \<open>0..W-1\<close> gets a range whose size is
  \<open>N div W + 1\<close> when \<open>r < N mod W\<close> and \<open>N div W\<close> otherwise, beginning at the sum of the
  sizes of the lower ranks; every index of \<open>[0, N)\<close> lies in the range of exactly one rank,
  the ranges together are exactly \<open>[0, N)\<close>, the ranges of two different ranks are
  disjoint, and two sizes differ by at most 1.
\<close>

theorem shard_plan_partition:
  assumes "0 < n" "0 < w"
  shows "(\<forall>r. 0 \<le> r \<and> r < w \<longrightarrow>
            (\<exists>b. get_local_indices n w r
                   = Inr (Range b (b + (n div w + (if r < n mod w then 1 else 0))))
                \<and> b = (\<Sum>k\<leftarrow>[0..r - 1]. n div w + (if k < n mod w then 1 else 0))))
       \<and> (\<forall>r. 0 \<le> r \<and> r < w \<longrightarrow>
            shard_len n w r = n div w + (if r < n mod w then 1 else 0))
       \<and> (\<forall>i. 0 \<le> i \<and> i < n \<longrightarrow> (\<exists>!r. 0 \<le> r \<and> r < w \<and> i \<in> shard_set n w r))
       \<and> (\<Union>r\<in>{0..<w}. shard_set n w r) = {0..<n}
       \<and> (\<forall>r r'. 0 \<le> r \<and> r < w \<and> 0 \<le> r' \<and> r' < w \<and> r \<noteq> r' \<longrightarrow>
            shard_set n w r \<inter> shard_set n w r' = {})
       \<and> (\<forall>r r'. 0 \<le> r \<and> r < w \<and> 0 \<le> r' \<and> r' < w \<longrightarrow>
            shard_len n w r - shard_len n w r' \<le> 1)"
proof -
  have n0: "0 \<le> n" using assms(1) by simp
  have l0: "0 \<le> n mod w" using assms(2) by simp
  have A: "\<exists>b. get_local_indices n w r
                   = Inr (Range b (b + (n div w + (if r < n mod w then 1 else 0))))
                \<and> b = (\<Sum>k\<leftarrow>[0..r - 1]. n div w + (if k < n mod w then 1 else 0))"
    if "0 \<le> r" "r < w" for r
  proof -
    have "shard_begin n w r = (\<Sum>k\<leftarrow>[0..r - 1]. n div w + (if k < n mod w then 1 else 0))"
      using that(1) l0 by (simp add: sum_list_shard_sizes shard_begin_def)
    then show ?thesis
      using get_local_indices_eq [OF n0 assms(2) that] shard_begin_step [of n w r] by simp
  qed
  have B: "shard_len n w r = n div w + (if r < n mod w then 1 else 0)"
    if "0 \<le> r" "r < w" for r
    using shard_len_eq [OF n0 assms(2) that] .
  have C: "\<exists>!r. 0 \<le> r \<and> r < w \<and> i \<in> shard_set n w r" if "0 \<le> i" "i < n" for i
    using shard_owner [OF assms that] .
  have D: "(\<Union>r\<in>{0..<w}. shard_set n w r) = {0..<n}"
  proof
    show "(\<Union>r\<in>{0..<w}. shard_set n w r) \<subseteq> {0..<n}"
    proof
      fix i assume "i \<in> (\<Union>r\<in>{0..<w}. shard_set n w r)"
      then obtain r where "0 \<le> r" "r < w" "i \<in> shard_set n w r" by auto
      then show "i \<in> {0..<n}" using shard_set_within [OF n0 assms(2), of r] by blast
    qed
  next
    show "{0..<n} \<subseteq> (\<Union>r\<in>{0..<w}. shard_set n w r)"
    proof
      fix i assume "i \<in> {0..<n}"
      then have "0 \<le> i" "i < n" by auto
      from C [OF this] obtain r where "0 \<le> r" "r < w" "i \<in> shard_set n w r" by blast
      then show "i \<in> (\<Union>r\<in>{0..<w}. shard_set n w r)" by auto
    qed
  qed
  have E: "shard_set n w r \<inter> shard_set n w r' = {}"
    if "0 \<le> r" "r < w" "0 \<le> r'" "r' < w" "r \<noteq> r'" for r r'
  proof (rule ccontr)
    assume "shard_set n w r \<inter> shard_set n w r' \<noteq> {}"
    then obtain i where i: "i \<in> shard_set n w r" "i \<in> shard_set n w r'" by blast
    then have "0 \<le> i" "i < n"
      using shard_set_within [OF n0 assms(2) that(1,2)] by auto
    from C [OF this] i that show False by blast
  qed
  have F: "shard_len n w r - shard_len n w r' \<le> 1"
    if "0 \<le> r" "r < w" "0 \<le> r'" "r' < w" for r r'
    using B [OF that(1,2)] B [OF that(3,4)] by simp
  from A B C D E F show ?thesis by (intro conjI allI impI) (erule conjE | assumption)+
qed

theorem shard_plan_partition_witness:
  "(0::int) < 10 \<and> (0::int) < 3
   \<and> shard_len 10 3 0 = 4 \<and> shard_len 10 3 2 = 3
   \<and> (\<Union>r\<in>{0..<3}. shard_set 10 3 r) = {0..<10}
   \<and> shard_set 10 3 0 \<inter> shard_set 10 3 1 = {}
   \<and> shard_len 10 3 0 - shard_len 10 3 2 \<le> 1"
proof -
  have h: "(0::int) < 10" "(0::int) < 3" by simp_all
  note p = shard_plan_partition [OF h]
  from p have B: "\<forall>r. 0 \<le> r \<and> r < 3 \<longrightarrow>
      shard_len 10 3 r = 10 div 3 + (if r < 10 mod 3 then 1 else 0)"
    by (elim conjE)
  from p have D: "(\<Union>r\<in>{0..<3}. shard_set 10 3 r) = {0..<10}"
    by (elim conjE)
  from p have E: "\<forall>r r'. 0 \<le> r \<and> r < 3 \<and> 0 \<le> r' \<and> r' < 3 \<and> r \<noteq> r' \<longrightarrow>
            shard_set 10 3 r \<inter> shard_set 10 3 r' = {}"
    by (elim conjE)
  from p have F: "\<forall>r r'. 0 \<le> r \<and> r < 3 \<and> 0 \<le> r' \<and> r' < 3 \<longrightarrow>
            shard_len 10 3 r - shard_len 10 3 r' \<le> 1"
    by (elim conjE)
  have "shard_len 10 3 0 = 4" using B [rule_format, of 0] by simp
  moreover have "shard_len 10 3 2 = 3" using B [rule_format, of 2] by simp
  moreover have "shard_set 10 3 0 \<inter> shard_set 10 3 1 = {}" using E [rule_format, of 0 1] by simp
  moreover have "shard_len 10 3 0 - shard_len 10 3 2 \<le> 1" using F [rule_format, of 0 2] by simp
  ultimately show ?thesis using D by simp
qed

section \<open>The planner's arguments\<close>

lemma get_local_indices_total:
  "w \<noteq> 0 \<Longrightarrow> \<exists>rg. get_local_indices n w r = Inr rg"
  by (simp add: get_local_indices_def Let_def)








text \<open>
  The constructor taken by itself does not look at the sign of the worker count: with a
  positive size and a negative count its range is empty. No process group has such a
  count, so no run gets there.
\<close>

lemma sampler_init_negative_world_size:
  assumes "0 < sz" "w < 0"
  shows "InferenceSampler_init sz w r
           = Inr \<lparr>size_f = sz, rank_f = r, world_size_f = w, local_indices = Range 0 0\<rparr>"
  using assms
  by (simp add: InferenceSampler_init_def get_local_indices_def Let_def py_slice_to_def)

section \<open>The length of the dataset\<close>

lemma shard_cover:
  assumes "0 < n" "0 < w"
  shows "(\<Union>r\<in>{0..<w}. shard_set n w r) = {0..<n}"
proof
  have n0: "0 \<le> n" using assms(1) by simp
  show "(\<Union>r\<in>{0..<w}. shard_set n w r) \<subseteq> {0..<n}"
  proof
    fix i assume "i \<in> (\<Union>r\<in>{0..<w}. shard_set n w r)"
    then obtain r where "0 \<le> r" "r < w" "i \<in> shard_set n w r" by auto
    then show "i \<in> {0..<n}" using shard_set_within [OF n0 assms(2), of r] by blast
  qed
  show "{0..<n} \<subseteq> (\<Union>r\<in>{0..<w}. shard_set n w r)"
  proof
    fix i assume "i \<in> {0..<n}"
    then have "0 \<le> i" "i < n" by auto
    from shard_owner [OF assms this] obtain r where "0 \<le> r" "r < w" "i \<in> shard_set n w r"
      by blast
    then show "i \<in> (\<Union>r\<in>{0..<w}. shard_set n w r)" by auto
  qed
qed

lemma main_sampler_iter:
  assumes "0 < dataset_len d" "w \<noteq> 0"
  shows "\<exists>s. main_sampler d w r = Inr s \<and> set (sampler_iter s) = shard_set (dataset_len d) w r
              \<and> size_f s = dataset_len d"
proof -
  from get_local_indices_total [OF assms(2)] obtain rg
    where "get_local_indices (dataset_len d) w r = Inr rg" by blast
  with assms(1) show ?thesis
    by (simp add: main_sampler_def InferenceSampler_init_def sampler_iter_def shard_set_def)
qed

lemma init_fields:
  assumes "AudioDatasetModified_init ld dn sp lim = Inr d"
  shows "limit d = lim"
    and "ld ''fixie-ai/covost2'' (if dn = ''en_de'' then ''en_de'' else ''en_zh-CN'') sp = Some (ds d)"
  using assms
  by (auto simp: AudioDatasetModified_init_def split: if_splits option.splits)

text \<open>
  C9: a dataset built by the constructor over \<open>S\<close> loaded rows reports the length
  \<open>min limit S\<close> when the limit is positive and \<open>S\<close> when it is zero or negative; the
  length lies between 0 and \<open>S\<close>. The sampler of the main program is built from this
  length, so for a positive length and worker count the ranks' indices together are
  exactly \<open>[0, length)\<close>.
\<close>

theorem dataset_len_truncated:
  assumes "AudioDatasetModified_init ld dn sp lim = Inr d"
  shows "(0 < lim \<longrightarrow> dataset_len d = min lim (int (length (ds d))))
       \<and> (lim \<le> 0 \<longrightarrow> dataset_len d = int (length (ds d)))
       \<and> ld ''fixie-ai/covost2'' (if dn = ''en_de'' then ''en_de'' else ''en_zh-CN'') sp = Some (ds d)
       \<and> 0 \<le> dataset_len d \<and> dataset_len d \<le> int (length (ds d))
       \<and> (\<forall>w. 0 < w \<and> 0 < dataset_len d \<longrightarrow>
             (\<forall>r. \<exists>s. main_sampler d w r = Inr s \<and> size_f s = dataset_len d
                       \<and> set (sampler_iter s) = shard_set (dataset_len d) w r)
             \<and> (\<Union>r\<in>{0..<w}. shard_set (dataset_len d) w r) = {0..<dataset_len d})"
proof -
  note f = init_fields [OF assms]
  have A: "0 < lim \<longrightarrow> dataset_len d = min lim (int (length (ds d)))"
    using f(1) by (simp add: dataset_len_def)
  have B: "lim \<le> 0 \<longrightarrow> dataset_len d = int (length (ds d))"
    using f(1) by (simp add: dataset_len_def)
  have C: "0 \<le> dataset_len d" "dataset_len d \<le> int (length (ds d))"
    by (simp_all add: dataset_len_def)
  have D: "(\<forall>r. \<exists>s. main_sampler d w r = Inr s \<and> size_f s = dataset_len d
                       \<and> set (sampler_iter s) = shard_set (dataset_len d) w r)
             \<and> (\<Union>r\<in>{0..<w}. shard_set (dataset_len d) w r) = {0..<dataset_len d}"
    if "0 < w" "0 < dataset_len d" for w
  proof
    show "\<forall>r. \<exists>s. main_sampler d w r = Inr s \<and> size_f s = dataset_len d
                       \<and> set (sampler_iter s) = shard_set (dataset_len d) w r"
    proof
      fix r
      from that have "w \<noteq> 0" by simp
      from main_sampler_iter [OF that(2) this, of r]
      show "\<exists>s. main_sampler d w r = Inr s \<and> size_f s = dataset_len d
                       \<and> set (sampler_iter s) = shard_set (dataset_len d) w r"
        by blast
    qed
    show "(\<Union>r\<in>{0..<w}. shard_set (dataset_len d) w r) = {0..<dataset_len d}"
      using shard_cover [OF that(2,1)] .
  qed
  from A B C D f(2) show ?thesis by simp
qed

text \<open>Three rows under a limit of 2: the length is 2, and two workers share \<open>[0, 2)\<close>.\<close>

theorem dataset_len_truncated_witness:
  "\<exists>d. AudioDatasetModified_init example_load ''en_de'' ''validation'' 2 = Inr d
      \<and> ds d = example_rows \<and> length (ds d) = 3 \<and> dataset_len d = 2
      \<and> (\<Union>r\<in>{0..<2}. shard_set (dataset_len d) 2 r) = {0..<2}"
proof -
  obtain d where d: "AudioDatasetModified_init example_load ''en_de'' ''validation'' 2 = Inr d"
    by (simp add: AudioDatasetModified_init_def example_load_def)
  note t = dataset_len_truncated [OF d]
  from t have rows: "ds d = example_rows" by (simp add: example_load_def)
  then have len: "length (ds d) = 3" by (simp add: example_rows_def)
  from t len have two: "dataset_len d = 2" by simp
  from t have "\<forall>w. 0 < w \<and> 0 < dataset_len d \<longrightarrow>
             (\<forall>r. \<exists>s. main_sampler d w r = Inr s \<and> size_f s = dataset_len d
                       \<and> set (sampler_iter s) = shard_set (dataset_len d) w r)
             \<and> (\<Union>r\<in>{0..<w}. shard_set (dataset_len d) w r) = {0..<dataset_len d}"
    by (elim conjE)
  from this [rule_format, of 2] two
  have "(\<Union>r\<in>{0..<2}. shard_set (dataset_len d) 2 r) = {0..<2}" by simp
  with d rows len two show ?thesis by blast
qed

section \<open>The worker loop checks no lengths\<close>

lemma foldl_worker_step:
  "foldl (worker_step infer) acc batches =
     \<lparr>gts = gts acc @ concat (map (\<lambda>(inputs, ap, src, gt). gt) batches),
      sources = sources acc @ concat (map (\<lambda>(inputs, ap, src, gt). src) batches),
      rets = rets acc @ concat (map (\<lambda>(inputs, ap, src, gt). infer inputs) batches),
      audio_paths = audio_paths acc @ concat (map (\<lambda>(inputs, ap, src, gt). ap) batches)\<rparr>"
proof (induction batches arbitrary: acc)
  case Nil
  show ?case by simp
next
  case (Cons b bs)
  obtain inputs ap src gt where b: "b = (inputs, ap, src, gt)" by (cases b) auto
  have step: "worker_step infer acc (inputs, ap, src, gt) =
      \<lparr>gts = gts acc @ gt, sources = sources acc @ src,
       rets = rets acc @ infer inputs, audio_paths = audio_paths acc @ ap\<rparr>"
    by (simp add: worker_step_def)
  have "foldl (worker_step infer) acc (b # bs) = foldl (worker_step infer) (worker_step infer acc b) bs"
    by simp
  also note Cons.IH [of "worker_step infer acc b"]
  finally show ?case by (simp add: step b)
qed

text \<open>
  C3 (as the code has it): the loop compares no lengths and raises nothing. Whatever the
  model returns for a batch is appended as it is: the accumulated responses are the
  concatenation of the model's outputs over the batches, and the ground truths, sources
  and audio paths are the concatenations of the batches' own lists.
\<close>

theorem worker_loop_appends_unchecked:
  "worker_loop infer batches =
     \<lparr>gts = concat (map (\<lambda>(inputs, ap, src, gt). gt) batches),
      sources = concat (map (\<lambda>(inputs, ap, src, gt). src) batches),
      rets = concat (map (\<lambda>(inputs, ap, src, gt). infer inputs) batches),
      audio_paths = concat (map (\<lambda>(inputs, ap, src, gt). ap) batches)\<rparr>"
  by (simp add: worker_loop_def foldl_worker_step)

text \<open>
  One worker, a limit of 2 and one batch of two items, for which the model returns a single
  prediction: the worker ends with two ground truths and one response, the run does not
  fail, and the results file is written with one record.
\<close>

theorem short_prediction_not_detected:
  "worker_main example_load example_processor dropping_infer (example_args 2 2) 1 0
     = Inr \<lparr>gts = [''eins'', ''zwei''], sources = [''covost_en_de_dev'', ''covost_en_de_dev''],
            rets = [''hyp''], audio_paths = [''a.wav'', ''b.wav'']\<rparr>
   \<and> main_run example_load example_processor dropping_infer example_bleu (example_args 2 2) 1
     = Inr \<lparr>results_file =
              [\<lparr>r_gt = ''eins'', r_response = ''hyp'', r_source = ''covost_en_de_dev'',
                r_audio_path = ''a.wav''\<rparr>],
            scores = Inr [\<lparr>rep_source = ''covost_en_de_dev'', rep_tokenize = ''13a'',
                           rep_cnt = 1, rep_bleu = 1\<rparr>]\<rparr>"
  by code_simp

section \<open>The merge keeps rank order\<close>

lemma concat_nth_offset:
  assumes "r < length xss" "j < length (xss ! r)"
  shows "concat xss ! (length (concat (take r xss)) + j) = xss ! r ! j"
proof -
  have "xss = take r xss @ xss ! r # drop (Suc r) xss"
    using assms(1) by (simp add: id_take_nth_drop)
  then have "concat xss = concat (take r xss) @ xss ! r @ concat (drop (Suc r) xss)"
    by (metis concat.simps(2) concat_append)
  then show ?thesis using assms(2) by (simp add: nth_append)
qed

lemma length_concat_map: "length (concat (map f ws)) = (\<Sum>w\<leftarrow>ws. length (f w))"
  by (induction ws) auto

lemma concat_map_nth:
  assumes "r < length ws" "j < length (f (ws ! r))"
  shows "concat (map f ws) ! ((\<Sum>w\<leftarrow>take r ws. length (f w)) + j) = f (ws ! r) ! j"
proof -
  have "concat (map f ws) ! (length (concat (take r (map f ws))) + j) = map f ws ! r ! j"
    using assms by (intro concat_nth_offset) auto
  then show ?thesis using assms(1) by (simp add: take_map length_concat_map)
qed

text \<open>
  C6: each merged list is the concatenation of the workers' lists in rank order, nothing
  dropped and nothing reordered: its length is the sum of the workers' lengths, and the
  \<open>j\<close>-th entry of rank \<open>r\<close> stands at position \<open>j\<close> after the entries of the ranks below.
\<close>

theorem merge_rank_order:
  "merged_gts (merge_gathered ws) = concat (map gts ws)
   \<and> merged_sources (merge_gathered ws) = concat (map sources ws)
   \<and> merged_responses (merge_gathered ws) = concat (map rets ws)
   \<and> merged_audio_paths (merge_gathered ws) = concat (map audio_paths ws)
   \<and> length (merged_gts (merge_gathered ws)) = (\<Sum>w\<leftarrow>ws. length (gts w))
   \<and> length (merged_sources (merge_gathered ws)) = (\<Sum>w\<leftarrow>ws. length (sources w))
   \<and> length (merged_responses (merge_gathered ws)) = (\<Sum>w\<leftarrow>ws. length (rets w))
   \<and> length (merged_audio_paths (merge_gathered ws)) = (\<Sum>w\<leftarrow>ws. length (audio_paths w))
   \<and> (\<forall>r j. r < length ws \<and> j < length (gts (ws ! r)) \<longrightarrow>
         merged_gts (merge_gathered ws) ! ((\<Sum>w\<leftarrow>take r ws. length (gts w)) + j) = gts (ws ! r) ! j)
   \<and> (\<forall>r j. r < length ws \<and> j < length (sources (ws ! r)) \<longrightarrow>
         merged_sources (merge_gathered ws) ! ((\<Sum>w\<leftarrow>take r ws. length (sources w)) + j)
           = sources (ws ! r) ! j)
   \<and> (\<forall>r j. r < length ws \<and> j < length (rets (ws ! r)) \<longrightarrow>
         merged_responses (merge_gathered ws) ! ((\<Sum>w\<leftarrow>take r ws. length (rets w)) + j)
           = rets (ws ! r) ! j)
   \<and> (\<forall>r j. r < length ws \<and> j < length (audio_paths (ws ! r)) \<longrightarrow>
         merged_audio_paths (merge_gathered ws) ! ((\<Sum>w\<leftarrow>take r ws. length (audio_paths w)) + j)
           = audio_paths (ws ! r) ! j)"
  by (simp add: merge_gathered_def length_concat_map concat_map_nth)

text \<open>Two workers with two and one entries: the entry of rank 1 is the third of the merge.\<close>

theorem merge_rank_order_witness:
  "merged_responses (merge_gathered
      [\<lparr>gts = [''a'', ''b''], sources = [''s'', ''s''], rets = [''x'', ''y''], audio_paths = [''p'', ''q'']\<rparr>,
       \<lparr>gts = [''c''], sources = [''s''], rets = [''z''], audio_paths = [''r'']\<rparr>]) ! 2 = ''z''
   \<and> merged_gts (merge_gathered
      [\<lparr>gts = [''a'', ''b''], sources = [''s'', ''s''], rets = [''x'', ''y''], audio_paths = [''p'', ''q'']\<rparr>,
       \<lparr>gts = [''c''], sources = [''s''], rets = [''z''], audio_paths = [''r'']\<rparr>]) = [''a'', ''b'', ''c'']"
proof -
  let ?ws = "[\<lparr>gts = [''a'', ''b''], sources = [''s'', ''s''], rets = [''x'', ''y''], audio_paths = [''p'', ''q'']\<rparr>,
       \<lparr>gts = [''c''], sources = [''s''], rets = [''z''], audio_paths = [''r'']\<rparr>]"
  note t = merge_rank_order [of ?ws]
  from t have "\<forall>r j. r < length ?ws \<and> j < length (rets (?ws ! r)) \<longrightarrow>
         merged_responses (merge_gathered ?ws) ! ((\<Sum>w\<leftarrow>take r ?ws. length (rets w)) + j)
           = rets (?ws ! r) ! j"
    by (elim conjE)
  from this [rule_format, of 1 0] have "merged_responses (merge_gathered ?ws) ! 2 = ''z''"
    by (simp add: numeral_2_eq_2)
  moreover from t [THEN conjunct1] have "merged_gts (merge_gathered ?ws) = [''a'', ''b'', ''c'']"
    by simp
  ultimately show ?thesis by blast
qed

section \<open>The results list\<close>

lemma build_results_nth:
  assumes "i < length (build_results m)"
  shows "build_results m ! i =
           \<lparr>r_gt = merged_gts m ! i, r_response = merged_responses m ! i,
            r_source = merged_sources m ! i, r_audio_path = merged_audio_paths m ! i\<rparr>"
  using assms by (simp add: build_results_def)

lemma length_build_results:
  "length (build_results m) =
     min (length (merged_gts m)) (min (length (merged_responses m))
       (min (length (merged_sources m)) (length (merged_audio_paths m))))"
  by (simp add: build_results_def)

text \<open>
  C10: the results list that rank 0 builds and writes has the length of the shortest of
  the four merged lists, also when their lengths differ; its \<open>i\<close>-th record is made of the
  \<open>i\<close>-th entries of the four lists, so what the longer lists have beyond that length is
  left out; building and writing it raises nothing.
\<close>

theorem results_zip_shortest:
  "results_file (evaluate corpus_bleu ws) = build_results (merge_gathered ws)
   \<and> length (build_results m) =
       min (length (merged_gts m)) (min (length (merged_responses m))
         (min (length (merged_sources m)) (length (merged_audio_paths m))))
   \<and> (\<forall>i. i < length (build_results m) \<longrightarrow>
         build_results m ! i =
           \<lparr>r_gt = merged_gts m ! i, r_response = merged_responses m ! i,
            r_source = merged_sources m ! i, r_audio_path = merged_audio_paths m ! i\<rparr>)"
  by (simp add: evaluate_def Let_def length_build_results build_results_nth)

text \<open>Three ground truths, one response, two sources and three paths give one record.\<close>

theorem results_zip_shortest_witness:
  "length (build_results
      \<lparr>merged_gts = [''a'', ''b'', ''c''], merged_sources = [''s'', ''t''],
       merged_responses = [''x''], merged_audio_paths = [''p'', ''q'', ''r'']\<rparr>) = 1
   \<and> build_results
      \<lparr>merged_gts = [''a'', ''b'', ''c''], merged_sources = [''s'', ''t''],
       merged_responses = [''x''], merged_audio_paths = [''p'', ''q'', ''r'']\<rparr> ! 0
     = \<lparr>r_gt = ''a'', r_response = ''x'', r_source = ''s'', r_audio_path = ''p''\<rparr>"
proof -
  let ?m = "\<lparr>merged_gts = [''a'', ''b'', ''c''], merged_sources = [''s'', ''t''],
       merged_responses = [''x''], merged_audio_paths = [''p'', ''q'', ''r'']\<rparr>"
  note t = results_zip_shortest [where m = ?m]
  from t [THEN conjunct2, THEN conjunct1] have len: "length (build_results ?m) = 1" by simp
  from t [THEN conjunct2, THEN conjunct2, rule_format, of 0] len
  have "build_results ?m ! 0 = \<lparr>r_gt = ''a'', r_response = ''x'', r_source = ''s'', r_audio_path = ''p''\<rparr>"
    by simp
  with len show ?thesis by blast
qed

section \<open>No count check\<close>

text \<open>
  C2 (as the code has it): nothing compares the gathered lengths with the length of the
  dataset. Whenever every process finishes its loop, the run goes on to the evaluation of
  the gathered results; each merged list has the sum of the workers' lengths, and the
  results list has the length of the shortest merged list.
\<close>

theorem merge_without_count_check:
  "(map_result (worker_main ld processor infer a w) [0..w - 1] = Inr ws \<longrightarrow>
      main_run ld processor infer corpus_bleu a w = Inr (evaluate corpus_bleu ws))
   \<and> length (merged_gts (merge_gathered ws)) = (\<Sum>x\<leftarrow>ws. length (gts x))
   \<and> length (merged_responses (merge_gathered ws)) = (\<Sum>x\<leftarrow>ws. length (rets x))
   \<and> length (merged_sources (merge_gathered ws)) = (\<Sum>x\<leftarrow>ws. length (sources x))
   \<and> length (merged_audio_paths (merge_gathered ws)) = (\<Sum>x\<leftarrow>ws. length (audio_paths x))
   \<and> length (results_file (evaluate corpus_bleu ws)) =
       min (\<Sum>x\<leftarrow>ws. length (gts x)) (min (\<Sum>x\<leftarrow>ws. length (rets x))
         (min (\<Sum>x\<leftarrow>ws. length (sources x)) (\<Sum>x\<leftarrow>ws. length (audio_paths x))))"
  by (simp add: main_run_def evaluate_def Let_def length_build_results merge_gathered_def
      length_concat_map)

text \<open>
  Three items on two workers in batches of two, with a model that loses the last answer of
  every batch: the dataset has length 3, the workers gather 1 + 0 responses, and the run
  ends with a results file of one record and a score.
\<close>

theorem count_mismatch_not_detected:
  "map_sum id dataset_len (AudioDatasetModified_init example_load ''en_de'' ''validation'' (- 1)) = Inr 3
   \<and> map (worker_main example_load example_processor dropping_infer (example_args 2 (- 1)) 2) [0, 1]
     = [Inr \<lparr>gts = [''eins'', ''zwei''], sources = [''covost_en_de_dev'', ''covost_en_de_dev''],
             rets = [''hyp''], audio_paths = [''a.wav'', ''b.wav'']\<rparr>,
        Inr \<lparr>gts = [''drei''], sources = [''covost_en_de_dev''], rets = [],
             audio_paths = [''c.wav'']\<rparr>]
   \<and> main_run example_load example_processor dropping_infer example_bleu (example_args 2 (- 1)) 2
     = Inr \<lparr>results_file =
              [\<lparr>r_gt = ''eins'', r_response = ''hyp'', r_source = ''covost_en_de_dev'',
                r_audio_path = ''a.wav''\<rparr>],
            scores = Inr [\<lparr>rep_source = ''covost_en_de_dev'', rep_tokenize = ''13a'',
                           rep_cnt = 1, rep_bleu = 1\<rparr>]\<rparr>"
  by code_simp

text \<open>A run of one worker whose loop finishes goes on to the evaluation.\<close>

theorem merge_without_count_check_witness:
  "main_run example_load example_processor faithful_infer example_bleu (example_args 2 2) 1
     = Inr (evaluate example_bleu
         [\<lparr>gts = [''eins'', ''zwei''], sources = [''covost_en_de_dev'', ''covost_en_de_dev''],
            rets = [''hyp'', ''hyp''], audio_paths = [''a.wav'', ''b.wav'']\<rparr>])"
proof -
  have "map_result (worker_main example_load example_processor faithful_infer (example_args 2 2) 1)
          [0..1 - 1]
        = Inr [\<lparr>gts = [''eins'', ''zwei''], sources = [''covost_en_de_dev'', ''covost_en_de_dev''],
            rets = [''hyp'', ''hyp''], audio_paths = [''a.wav'', ''b.wav'']\<rparr>]"
    by code_simp
  with merge_without_count_check [where ld = example_load and processor = example_processor
      and infer = faithful_infer and a = "example_args 2 2" and w = 1
      and corpus_bleu = example_bleu, THEN conjunct1]
  show ?thesis by blast
qed

section \<open>Tags and tokenizer names\<close>

lemma py_split_nonempty: "py_split c s \<noteq> []"
  by (induction s) (auto split: list.splits)

lemma length_py_split: "length (py_split c s) = Suc (length (filter (\<lambda>x. x = c) s))"
  by (induction s) (auto split: list.splits simp: py_split_nonempty)

lemma py_split_pieces: "c \<in> set s \<longleftrightarrow> 2 \<le> length (py_split c s)"
proof -
  have key: "filter (\<lambda>x. x = c) s = [] \<longleftrightarrow> c \<notin> set s"
    by (auto simp: filter_empty_conv)
  show ?thesis
  proof (cases "filter (\<lambda>x. x = c) s")
    case Nil
    with key show ?thesis by (simp add: length_py_split)
  next
    case (Cons y ys)
    with key show ?thesis by (simp add: length_py_split)
  qed
qed

lemma py_index_second_last:
  "2 \<le> length xs \<Longrightarrow> py_index xs (- 2) = Inr (xs ! (length xs - 2))"
  by (simp add: py_index_def nat_diff_distrib')


lemma tokenize_of_segment:
  assumes "CHR ''_'' \<in> set src"
  shows "\<exists>seg. py_index (py_split CHR ''_'' src) (- 2) = Inr seg
             \<and> tokenize_of src = Inr (if seg = ''ja'' then ''ja-mecab''
                                      else if seg = ''zh'' then ''zh'' else ''13a'')"
proof -
  from assms have "2 \<le> length (py_split CHR ''_'' src)" by (simp add: py_split_pieces)
  from py_index_second_last [OF this] show ?thesis by (simp add: tokenize_of_def)
qed


section \<open>Groups and their scores\<close>

lemma setdefault_append_keyed:
  assumes "distinct ks"
  shows "setdefault_append (map (\<lambda>k. (k, F k)) ks) k0 x =
           (if k0 \<in> set ks then map (\<lambda>k. (k, if k = k0 then F k @ [x] else F k)) ks
            else map (\<lambda>k. (k, F k)) ks @ [(k0, [x])])"
  using assms
proof (induction ks)
  case Nil
  show ?case by simp
next
  case (Cons k ks)
  show ?case
  proof (cases "k = k0")
    case True
    with Cons.prems have "k0 \<notin> set ks" by simp
    then have "map (\<lambda>k. (k, if k = k0 then F k @ [x] else F k)) ks = map (\<lambda>k. (k, F k)) ks"
      by (intro map_cong) auto
    with True show ?thesis by simp
  next
    case False
    with Cons show ?thesis by simp
  qed
qed

lemma group_keys_snoc:
  "group_keys (xs @ [x]) =
     (if r_source x \<in> set (group_keys xs) then group_keys xs else group_keys xs @ [r_source x])"
  by (simp add: group_keys_def)

lemma set_group_keys: "set (group_keys xs) = r_source ` set xs"
  by (simp add: group_keys_def)

lemma distinct_group_keys: "distinct (group_keys xs)"
  by (simp add: group_keys_def)

lemma group_results_snoc:
  "group_results (xs @ [x]) = setdefault_append (group_results xs) (r_source x) x"
  by (simp add: group_results_def)

lemma group_results_eq:
  "group_results xs = map (\<lambda>k. (k, group_members xs k)) (group_keys xs)"
proof (induction xs rule: rev_induct)
  case Nil
  show ?case by (simp add: group_results_def group_keys_def)
next
  case (snoc x xs)
  let ?k0 = "r_source x"
  have step: "group_results (xs @ [x]) =
      (if ?k0 \<in> set (group_keys xs)
       then map (\<lambda>k. (k, if k = ?k0 then group_members xs k @ [x] else group_members xs k))
              (group_keys xs)
       else map (\<lambda>k. (k, group_members xs k)) (group_keys xs) @ [(?k0, [x])])"
    unfolding group_results_snoc snoc.IH
    by (rule setdefault_append_keyed) (rule distinct_group_keys)
  have mem: "group_members (xs @ [x]) k = (if k = ?k0 then group_members xs k @ [x] else group_members xs k)"
    for k
    by (auto simp: group_members_def)
  show ?case
  proof (cases "?k0 \<in> set (group_keys xs)")
    case True
    with step show ?thesis by (simp add: group_keys_snoc mem)
  next
    case False
    then have "group_members xs ?k0 = []"
      unfolding set_group_keys group_members_def filter_empty_conv by (metis imageI)
    moreover have "map (\<lambda>k. (k, group_members (xs @ [x]) k)) (group_keys xs)
        = map (\<lambda>k. (k, group_members xs k)) (group_keys xs)"
      using False by (intro map_cong) (auto simp: mem)
    ultimately show ?thesis using step False by (simp add: group_keys_snoc mem)
  qed
qed

lemma map_result_Inr:
  assumes "\<And>x. x \<in> set xs \<Longrightarrow> f x = Inr (g x)"
  shows "map_result f xs = Inr (map g xs)"
  using assms by (induction xs) auto

text \<open>The tokenizer name of a tag that has one, and the printed line of a group.\<close>

lemma score_groups_eq:
  assumes "\<And>it. it \<in> set results \<Longrightarrow> CHR ''_'' \<in> set (r_source it)"
  shows "score_groups corpus_bleu results =
     Inr (map (\<lambda>k. \<lparr>rep_source = k, rep_tokenize = projr (tokenize_of k),
                     rep_cnt = int (length (group_members results k)),
                     rep_bleu = corpus_bleu (map r_response (group_members results k))
                                  [map r_gt (group_members results k)] (projr (tokenize_of k))\<rparr>)
            (group_keys results))"
proof -
  let ?rep = "\<lambda>k. \<lparr>rep_source = k, rep_tokenize = projr (tokenize_of k),
                     rep_cnt = int (length (group_members results k)),
                     rep_bleu = corpus_bleu (map r_response (group_members results k))
                                  [map r_gt (group_members results k)] (projr (tokenize_of k))\<rparr>"
  have one: "score_group corpus_bleu (k, group_members results k) = Inr (?rep k)"
    if "k \<in> set (group_keys results)" for k
  proof -
    from that assms have "CHR ''_'' \<in> set k" by (auto simp: set_group_keys)
    from tokenize_of_segment [OF this] obtain p where "tokenize_of k = Inr p" by blast
    then show ?thesis by (simp add: score_group_def Let_def)
  qed
  have "map_result (score_group corpus_bleu) (map (\<lambda>k. (k, group_members results k)) (group_keys results))
        = Inr (map (\<lambda>g. ?rep (fst g)) (map (\<lambda>k. (k, group_members results k)) (group_keys results)))"
    by (rule map_result_Inr) (auto simp: one)
  then show ?thesis by (simp add: score_groups_def group_results_eq comp_def)
qed

lemma group_members_mset:
  assumes "mset xs = mset ys"
  shows "length (group_members xs k) = length (group_members ys k)"
proof -
  have "mset (group_members xs k) = mset (group_members ys k)"
    using assms by (simp add: group_members_def)
  then show ?thesis by (rule mset_eq_length)
qed

lemma score_groups_reports:
  assumes "\<forall>it\<in>set results. CHR ''_'' \<in> set (r_source it)"
  shows "(\<exists>reports. score_groups corpus_bleu results = Inr reports
      \<and> map rep_source reports = group_keys results
      \<and> distinct (map rep_source reports)
      \<and> set (map rep_source reports) = r_source ` set results
      \<and> (\<forall>rep\<in>set reports.
           (\<exists>seg. py_index (py_split CHR ''_'' (rep_source rep)) (- 2) = Inr seg
                \<and> rep_tokenize rep = (if seg = ''ja'' then ''ja-mecab''
                                       else if seg = ''zh'' then ''zh'' else ''13a''))
           \<and> rep_cnt rep = int (length (filter (\<lambda>it. r_source it = rep_source rep) results))
           \<and> rep_bleu rep
               = corpus_bleu (map r_response (filter (\<lambda>it. r_source it = rep_source rep) results))
                   [map r_gt (filter (\<lambda>it. r_source it = rep_source rep) results)]
                   (rep_tokenize rep))
      \<and> (\<forall>results'. mset results' = mset results \<longrightarrow>
           (\<exists>reports'. score_groups corpus_bleu results' = Inr reports'
              \<and> (\<lambda>rep. (rep_source rep, rep_tokenize rep, rep_cnt rep)) ` set reports'
                = (\<lambda>rep. (rep_source rep, rep_tokenize rep, rep_cnt rep)) ` set reports)))"
proof -
  let ?rep = "\<lambda>rs k. \<lparr>rep_source = k, rep_tokenize = projr (tokenize_of k),
                     rep_cnt = int (length (group_members rs k)),
                     rep_bleu = corpus_bleu (map r_response (group_members rs k))
                                  [map r_gt (group_members rs k)] (projr (tokenize_of k))\<rparr>"
  let ?reports = "map (?rep results) (group_keys results)"
  let ?triple = "\<lambda>rep :: 'a report. (rep_source rep, rep_tokenize rep, rep_cnt rep)"
  have wf: "CHR ''_'' \<in> set (r_source it)" if "it \<in> set results" for it
    using assms that by blast
  have eq: "score_groups corpus_bleu results = Inr ?reports"
    by (rule score_groups_eq) (rule wf)
  have keys: "map rep_source ?reports = group_keys results"
    by (simp add: comp_def)
  have dist: "distinct (map rep_source ?reports)"
    unfolding keys by (rule distinct_group_keys)
  have tags: "set (map rep_source ?reports) = r_source ` set results"
    unfolding keys by (rule set_group_keys)
  have each: "(\<exists>seg. py_index (py_split CHR ''_'' (rep_source rep)) (- 2) = Inr seg
                \<and> rep_tokenize rep = (if seg = ''ja'' then ''ja-mecab''
                                       else if seg = ''zh'' then ''zh'' else ''13a''))
           \<and> rep_cnt rep = int (length (filter (\<lambda>it. r_source it = rep_source rep) results))
           \<and> rep_bleu rep
               = corpus_bleu (map r_response (filter (\<lambda>it. r_source it = rep_source rep) results))
                   [map r_gt (filter (\<lambda>it. r_source it = rep_source rep) results)]
                   (rep_tokenize rep)"
    if "rep \<in> set ?reports" for rep
  proof -
    from that obtain k where k: "k \<in> set (group_keys results)" "rep = ?rep results k" by auto
    then have "CHR ''_'' \<in> set k" using wf by (auto simp: set_group_keys)
    from tokenize_of_segment [OF this] obtain seg
      where "py_index (py_split CHR ''_'' k) (- 2) = Inr seg"
        and "tokenize_of k = Inr (if seg = ''ja'' then ''ja-mecab''
                                  else if seg = ''zh'' then ''zh'' else ''13a'')"
      by blast
    with k(2) show ?thesis by (simp add: group_members_def)
  qed
  have perm: "\<exists>reports'. score_groups corpus_bleu results' = Inr reports'
              \<and> ?triple ` set reports' = ?triple ` set ?reports"
    if m: "mset results' = mset results" for results'
  proof -
    from m have sets: "set results' = set results" by (rule mset_eq_setD)
    then have wf': "CHR ''_'' \<in> set (r_source it)" if "it \<in> set results'" for it
      using wf that by simp
    have eq': "score_groups corpus_bleu results' = Inr (map (?rep results') (group_keys results'))"
      by (rule score_groups_eq) (rule wf')
    have "?triple ` set (map (?rep results') (group_keys results'))
          = (\<lambda>k. (k, projr (tokenize_of k), int (length (group_members results' k))))
              ` (r_source ` set results')"
      by (simp add: image_image set_group_keys)
    also have "\<dots> = (\<lambda>k. (k, projr (tokenize_of k), int (length (group_members results k))))
              ` (r_source ` set results)"
      using group_members_mset [OF m] sets by simp
    also have "\<dots> = ?triple ` set ?reports"
      by (simp add: image_image set_group_keys)
    finally show ?thesis using eq' by blast
  qed
  show ?thesis
  proof (rule exI [of _ ?reports], intro conjI)
    show "score_groups corpus_bleu results = Inr ?reports" by (rule eq)
    show "map rep_source ?reports = group_keys results" by (rule keys)
    show "distinct (map rep_source ?reports)" by (rule dist)
    show "set (map rep_source ?reports) = r_source ` set results" by (rule tags)
    show "\<forall>rep\<in>set ?reports.
           (\<exists>seg. py_index (py_split CHR ''_'' (rep_source rep)) (- 2) = Inr seg
                \<and> rep_tokenize rep = (if seg = ''ja'' then ''ja-mecab''
                                       else if seg = ''zh'' then ''zh'' else ''13a''))
           \<and> rep_cnt rep = int (length (filter (\<lambda>it. r_source it = rep_source rep) results))
           \<and> rep_bleu rep
               = corpus_bleu (map r_response (filter (\<lambda>it. r_source it = rep_source rep) results))
                   [map r_gt (filter (\<lambda>it. r_source it = rep_source rep) results)]
                   (rep_tokenize rep)"
    proof
      fix rep assume "rep \<in> set ?reports"
      then show "(\<exists>seg. py_index (py_split CHR ''_'' (rep_source rep)) (- 2) = Inr seg
                \<and> rep_tokenize rep = (if seg = ''ja'' then ''ja-mecab''
                                       else if seg = ''zh'' then ''zh'' else ''13a''))
           \<and> rep_cnt rep = int (length (filter (\<lambda>it. r_source it = rep_source rep) results))
           \<and> rep_bleu rep
               = corpus_bleu (map r_response (filter (\<lambda>it. r_source it = rep_source rep) results))
                   [map r_gt (filter (\<lambda>it. r_source it = rep_source rep) results)]
                   (rep_tokenize rep)"
        by (rule each)
    qed
    show "\<forall>results'. mset results' = mset results \<longrightarrow>
           (\<exists>reports'. score_groups corpus_bleu results' = Inr reports'
              \<and> ?triple ` set reports' = ?triple ` set ?reports)"
    proof (intro allI impI)
      fix results' assume "mset results' = mset results"
      then show "\<exists>reports'. score_groups corpus_bleu results' = Inr reports'
              \<and> ?triple ` set reports' = ?triple ` set ?reports"
        by (rule perm)
    qed
  qed
qed

section \<open>The tags of a run\<close>

lemma map_result_Inr_set:
  "map_result f xs = Inr ys \<Longrightarrow> y \<in> set ys \<Longrightarrow> \<exists>x\<in>set xs. f x = Inr y"
proof (induction xs arbitrary: ys)
  case Nil
  then show ?case by simp
next
  case (Cons x xs)
  from Cons.prems(1) obtain z zs where z: "f x = Inr z" "map_result f xs = Inr zs" "ys = z # zs"
    by (auto split: sum.splits)
  show ?case
  proof (cases "y = z")
    case True
    with z show ?thesis by simp
  next
    case False
    with Cons.prems(2) z have "y \<in> set zs" by simp
    from Cons.IH [OF z(2) this] show ?thesis by auto
  qed
qed

lemma init_source:
  assumes "AudioDatasetModified_init ld dn sp lim = Inr d"
  shows "source d = ''covost_en_de_dev'' \<or> source d = ''covost_en_zh_dev''"
  using assms by (auto simp: AudioDatasetModified_init_def split: if_splits option.splits)

lemma getitem_source: "dataset_getitem d idx = Inr it \<Longrightarrow> i_source it = source d"
  by (auto simp: dataset_getitem_def split: sum.splits)

lemma data_loader_sources:
  assumes "data_loader d s bs processor = Inr batches" "(inp, ap, src, gt) \<in> set batches"
  shows "set src \<subseteq> {source d}"
proof -
  let ?f = "\<lambda>idxs. case map_result (dataset_getitem d) idxs of
                        Inl e \<Rightarrow> Inl e
                      | Inr inputs \<Rightarrow> Inr (collate_fn_modified inputs processor)"
  from assms(1) have "map_result ?f (chunk (nat bs) (sampler_iter s)) = Inr batches"
    by (simp add: data_loader_def split: if_splits)
  from map_result_Inr_set [OF this assms(2)] obtain idxs where "?f idxs = Inr (inp, ap, src, gt)"
    by blast
  then obtain inputs where i: "map_result (dataset_getitem d) idxs = Inr inputs"
    and c: "collate_fn_modified inputs processor = (inp, ap, src, gt)"
    by (auto split: sum.splits)
  from c have src: "src = map i_source inputs" by (simp add: collate_fn_modified_def Let_def)
  have "i_source it = source d" if "it \<in> set inputs" for it
  proof -
    from map_result_Inr_set [OF i that] obtain idx where "dataset_getitem d idx = Inr it" by blast
    then show ?thesis by (rule getitem_source)
  qed
  with src show ?thesis by auto
qed

lemma worker_loop_sources:
  "sources (worker_loop infer batches) = concat (map (\<lambda>(inputs, ap, src, gt). src) batches)"
  by (simp add: worker_loop_def foldl_worker_step)

lemma worker_main_sources:
  assumes "worker_main ld processor infer a w r = Inr wr" "t \<in> set (sources wr)"
  shows "t = ''covost_en_de_dev'' \<or> t = ''covost_en_zh_dev''"
proof -
  from assms(1) obtain d s batches
    where d: "AudioDatasetModified_init ld (args_dataset a) (args_split a) (args_limit a) = Inr d"
      and b: "data_loader d s (args_batch_size a) processor = Inr batches"
      and wr: "wr = worker_loop infer batches"
    by (auto simp: worker_main_def split: sum.splits)
  from assms(2) wr obtain batch where batch: "batch \<in> set batches"
    and t: "t \<in> set (case batch of (inputs, ap, src, gt) \<Rightarrow> src)"
    by (auto simp: worker_loop_sources)
  obtain inp ap src gt where "batch = (inp, ap, src, gt)" by (cases batch) auto
  with batch t data_loader_sources [OF b, of inp ap src gt] have "t = source d" by auto
  with init_source [OF d] show ?thesis by simp
qed

lemma build_results_source:
  assumes "it \<in> set (build_results m)"
  shows "r_source it \<in> set (merged_sources m)"
proof -
  from assms obtain g resp src ap
    where z: "(g, resp, src, ap) \<in> set (zip (merged_gts m) (zip (merged_responses m)
              (zip (merged_sources m) (merged_audio_paths m))))"
      and it: "it = \<lparr>r_gt = g, r_response = resp, r_source = src, r_audio_path = ap\<rparr>"
    by (auto simp: build_results_def)
  from z have "(resp, src, ap) \<in> set (zip (merged_responses m)
              (zip (merged_sources m) (merged_audio_paths m)))"
    by (rule set_zip_rightD)
  then have "(src, ap) \<in> set (zip (merged_sources m) (merged_audio_paths m))"
    by (rule set_zip_rightD)
  then have "src \<in> set (merged_sources m)" by (rule set_zip_leftD)
  with it show ?thesis by simp
qed

lemma main_run_sources:
  assumes "main_run ld processor infer corpus_bleu a w = Inr out" "it \<in> set (results_file out)"
  shows "r_source it = ''covost_en_de_dev'' \<or> r_source it = ''covost_en_zh_dev''"
proof -
  from assms(1) obtain ws
    where ws: "map_result (worker_main ld processor infer a w) [0..w - 1] = Inr ws"
      and out: "out = evaluate corpus_bleu ws"
    by (auto simp: main_run_def split: sum.splits)
  from assms(2) out have "it \<in> set (build_results (merge_gathered ws))"
    by (simp add: evaluate_def Let_def)
  from build_results_source [OF this] obtain wr where wr: "wr \<in> set ws" "r_source it \<in> set (sources wr)"
    by (auto simp: merge_gathered_def)
  from map_result_Inr_set [OF ws wr(1)] obtain r
    where "worker_main ld processor infer a w r = Inr wr" by blast
  from worker_main_sources [OF this wr(2)] show ?thesis .
qed

lemma main_run_scores:
  assumes "main_run ld processor infer corpus_bleu a w = Inr out"
  shows "scores out = score_groups corpus_bleu (results_file out)"
proof -
  from assms obtain ws where "out = evaluate corpus_bleu ws"
    by (auto simp: main_run_def split: sum.splits)
  then show ?thesis by (simp add: evaluate_def Let_def)
qed


lemma tokenize_of_tags:
  "tokenize_of ''covost_en_de_dev'' = Inr ''13a''"
  "tokenize_of ''covost_en_zh_dev'' = Inr ''zh''"
  "tokenize_of ''covost_en_ja_dev'' = Inr ''ja-mecab''"
  by code_simp+

text \<open>
  C4: the tokenizer handed to the scorer for a group is chosen from the second-to-last
  piece of the group's tag, \<open>ja-mecab\<close> for \<open>ja\<close>, \<open>zh\<close> for \<open>zh\<close> and the default \<open>13a\<close> for
  every other piece; the scorer gets the responses of the results that carry the tag as
  hypotheses, their ground truths as the one list of references, and that tokenizer, and
  the reported score is what it returns; the reported count is the number of results that
  carry the tag. In every run with at least one worker that reaches the evaluation the
  tags are \<open>covost_en_de_dev\<close>, scored with \<open>13a\<close>, and \<open>covost_en_zh_dev\<close>, scored with
  \<open>zh\<close>. For any results whose tags all have a \<open>_\<close> the scoring returns one line per tag,
  in the order of first occurrence, and results in another order give the same tags with
  the same tokenizers and counts.
\<close>

theorem group_scoring:
  "(0 < w \<and> main_run ld processor infer corpus_bleu a w = Inr out \<longrightarrow>
      (\<exists>reports. scores out = Inr reports
         \<and> map rep_source reports = group_keys (results_file out)
         \<and> (\<forall>rep\<in>set reports.
              (rep_source rep = ''covost_en_de_dev'' \<and> rep_tokenize rep = ''13a''
               \<or> rep_source rep = ''covost_en_zh_dev'' \<and> rep_tokenize rep = ''zh'')
              \<and> rep_cnt rep
                  = int (length (filter (\<lambda>it. r_source it = rep_source rep) (results_file out)))
              \<and> rep_bleu rep
                  = corpus_bleu
                      (map r_response (filter (\<lambda>it. r_source it = rep_source rep) (results_file out)))
                      [map r_gt (filter (\<lambda>it. r_source it = rep_source rep) (results_file out))]
                      (rep_tokenize rep))))
   \<and> ((\<forall>it\<in>set results. CHR ''_'' \<in> set (r_source it)) \<longrightarrow>
      (\<exists>reports. score_groups corpus_bleu results = Inr reports
         \<and> map rep_source reports = group_keys results
         \<and> distinct (map rep_source reports)
         \<and> set (map rep_source reports) = r_source ` set results
         \<and> (\<forall>rep\<in>set reports.
              (\<exists>seg. py_index (py_split CHR ''_'' (rep_source rep)) (- 2) = Inr seg
                   \<and> rep_tokenize rep = (if seg = ''ja'' then ''ja-mecab''
                                          else if seg = ''zh'' then ''zh'' else ''13a''))
              \<and> rep_cnt rep = int (length (filter (\<lambda>it. r_source it = rep_source rep) results))
              \<and> rep_bleu rep
                  = corpus_bleu (map r_response (filter (\<lambda>it. r_source it = rep_source rep) results))
                      [map r_gt (filter (\<lambda>it. r_source it = rep_source rep) results)]
                      (rep_tokenize rep))
         \<and> (\<forall>results'. mset results' = mset results \<longrightarrow>
              (\<exists>reports'. score_groups corpus_bleu results' = Inr reports'
                 \<and> (\<lambda>rep. (rep_source rep, rep_tokenize rep, rep_cnt rep)) ` set reports'
                   = (\<lambda>rep. (rep_source rep, rep_tokenize rep, rep_cnt rep)) ` set reports))))
   \<and> tokenize_of ''covost_en_de_dev'' = Inr ''13a''
   \<and> tokenize_of ''covost_en_zh_dev'' = Inr ''zh''
   \<and> tokenize_of ''covost_en_ja_dev'' = Inr ''ja-mecab''"
proof (intro conjI)
  show "0 < w \<and> main_run ld processor infer corpus_bleu a w = Inr out \<longrightarrow>
      (\<exists>reports. scores out = Inr reports
         \<and> map rep_source reports = group_keys (results_file out)
         \<and> (\<forall>rep\<in>set reports.
              (rep_source rep = ''covost_en_de_dev'' \<and> rep_tokenize rep = ''13a''
               \<or> rep_source rep = ''covost_en_zh_dev'' \<and> rep_tokenize rep = ''zh'')
              \<and> rep_cnt rep
                  = int (length (filter (\<lambda>it. r_source it = rep_source rep) (results_file out)))
              \<and> rep_bleu rep
                  = corpus_bleu
                      (map r_response (filter (\<lambda>it. r_source it = rep_source rep) (results_file out)))
                      [map r_gt (filter (\<lambda>it. r_source it = rep_source rep) (results_file out))]
                      (rep_tokenize rep)))"
  proof
    assume "0 < w \<and> main_run ld processor infer corpus_bleu a w = Inr out"
    then have run: "main_run ld processor infer corpus_bleu a w = Inr out" by simp
    let ?rs = "results_file out"
    have tags: "r_source it = ''covost_en_de_dev'' \<or> r_source it = ''covost_en_zh_dev''"
      if "it \<in> set ?rs" for it
      using main_run_sources [OF run that] .
    have wf: "CHR ''_'' \<in> set (r_source it)" if "it \<in> set ?rs" for it
      using tags [OF that] by auto
    let ?rep = "\<lambda>k. \<lparr>rep_source = k, rep_tokenize = projr (tokenize_of k),
                     rep_cnt = int (length (group_members ?rs k)),
                     rep_bleu = corpus_bleu (map r_response (group_members ?rs k))
                                  [map r_gt (group_members ?rs k)] (projr (tokenize_of k))\<rparr>"
    have eq: "scores out = Inr (map ?rep (group_keys ?rs))"
      unfolding main_run_scores [OF run] by (rule score_groups_eq) (rule wf)
    have each: "(rep_source rep = ''covost_en_de_dev'' \<and> rep_tokenize rep = ''13a''
               \<or> rep_source rep = ''covost_en_zh_dev'' \<and> rep_tokenize rep = ''zh'')
              \<and> rep_cnt rep = int (length (filter (\<lambda>it. r_source it = rep_source rep) ?rs))
              \<and> rep_bleu rep
                  = corpus_bleu (map r_response (filter (\<lambda>it. r_source it = rep_source rep) ?rs))
                      [map r_gt (filter (\<lambda>it. r_source it = rep_source rep) ?rs)]
                      (rep_tokenize rep)"
      if "rep \<in> set (map ?rep (group_keys ?rs))" for rep
    proof -
      from that obtain k where k: "k \<in> set (group_keys ?rs)" "rep = ?rep k" by auto
      from k(1) obtain it where "it \<in> set ?rs" "k = r_source it" by (auto simp: set_group_keys)
      with tags have "k = ''covost_en_de_dev'' \<or> k = ''covost_en_zh_dev''" by blast
      then show ?thesis
      proof
        assume "k = ''covost_en_de_dev''"
        with k(2) show ?thesis by (simp add: tokenize_of_tags group_members_def)
      next
        assume "k = ''covost_en_zh_dev''"
        with k(2) show ?thesis by (simp add: tokenize_of_tags group_members_def)
      qed
    qed
    show "\<exists>reports. scores out = Inr reports
         \<and> map rep_source reports = group_keys ?rs
         \<and> (\<forall>rep\<in>set reports.
              (rep_source rep = ''covost_en_de_dev'' \<and> rep_tokenize rep = ''13a''
               \<or> rep_source rep = ''covost_en_zh_dev'' \<and> rep_tokenize rep = ''zh'')
              \<and> rep_cnt rep = int (length (filter (\<lambda>it. r_source it = rep_source rep) ?rs))
              \<and> rep_bleu rep
                  = corpus_bleu (map r_response (filter (\<lambda>it. r_source it = rep_source rep) ?rs))
                      [map r_gt (filter (\<lambda>it. r_source it = rep_source rep) ?rs)]
                      (rep_tokenize rep))"
    proof (rule exI [of _ "map ?rep (group_keys ?rs)"], intro conjI)
      show "scores out = Inr (map ?rep (group_keys ?rs))" by (rule eq)
      show "map rep_source (map ?rep (group_keys ?rs)) = group_keys ?rs" by (simp add: comp_def)
      show "\<forall>rep\<in>set (map ?rep (group_keys ?rs)).
              (rep_source rep = ''covost_en_de_dev'' \<and> rep_tokenize rep = ''13a''
               \<or> rep_source rep = ''covost_en_zh_dev'' \<and> rep_tokenize rep = ''zh'')
              \<and> rep_cnt rep = int (length (filter (\<lambda>it. r_source it = rep_source rep) ?rs))
              \<and> rep_bleu rep
                  = corpus_bleu (map r_response (filter (\<lambda>it. r_source it = rep_source rep) ?rs))
                      [map r_gt (filter (\<lambda>it. r_source it = rep_source rep) ?rs)]
                      (rep_tokenize rep)"
      proof
        fix rep assume "rep \<in> set (map ?rep (group_keys ?rs))"
        then show "(rep_source rep = ''covost_en_de_dev'' \<and> rep_tokenize rep = ''13a''
               \<or> rep_source rep = ''covost_en_zh_dev'' \<and> rep_tokenize rep = ''zh'')
              \<and> rep_cnt rep = int (length (filter (\<lambda>it. r_source it = rep_source rep) ?rs))
              \<and> rep_bleu rep
                  = corpus_bleu (map r_response (filter (\<lambda>it. r_source it = rep_source rep) ?rs))
                      [map r_gt (filter (\<lambda>it. r_source it = rep_source rep) ?rs)]
                      (rep_tokenize rep)"
          by (rule each)
      qed
    qed
  qed
next
  show "(\<forall>it\<in>set results. CHR ''_'' \<in> set (r_source it)) \<longrightarrow>
      (\<exists>reports. score_groups corpus_bleu results = Inr reports
         \<and> map rep_source reports = group_keys results
         \<and> distinct (map rep_source reports)
         \<and> set (map rep_source reports) = r_source ` set results
         \<and> (\<forall>rep\<in>set reports.
              (\<exists>seg. py_index (py_split CHR ''_'' (rep_source rep)) (- 2) = Inr seg
                   \<and> rep_tokenize rep = (if seg = ''ja'' then ''ja-mecab''
                                          else if seg = ''zh'' then ''zh'' else ''13a''))
              \<and> rep_cnt rep = int (length (filter (\<lambda>it. r_source it = rep_source rep) results))
              \<and> rep_bleu rep
                  = corpus_bleu (map r_response (filter (\<lambda>it. r_source it = rep_source rep) results))
                      [map r_gt (filter (\<lambda>it. r_source it = rep_source rep) results)]
                      (rep_tokenize rep))
         \<and> (\<forall>results'. mset results' = mset results \<longrightarrow>
              (\<exists>reports'. score_groups corpus_bleu results' = Inr reports'
                 \<and> (\<lambda>rep. (rep_source rep, rep_tokenize rep, rep_cnt rep)) ` set reports'
                   = (\<lambda>rep. (rep_source rep, rep_tokenize rep, rep_cnt rep)) ` set reports)))"
    by (rule impI) (rule score_groups_reports)
qed (rule tokenize_of_tags)+

text \<open>
  Two tags with two results each, interleaved, and a scorer that returns what it was
  handed: two lines with a count of 2; the German group is scored on its two responses
  against its two ground truths with the default tokenizer, the Chinese one on its own
  with \<open>zh\<close>; the reversed results give the same tags, tokenizers and counts. A run over
  three German items on two workers reports one line, scored with the default tokenizer
  on the three responses against the three ground truths.
\<close>

theorem group_scoring_witness:
  "score_groups recording_bleu example_items =
     Inr [\<lparr>rep_source = ''covost_en_de_dev'', rep_tokenize = ''13a'', rep_cnt = 2,
           rep_bleu = ([''one'', ''two''], [[''eins'', ''zwei'']], ''13a'')\<rparr>,
          \<lparr>rep_source = ''covost_en_zh_dev'', rep_tokenize = ''zh'', rep_cnt = 2,
           rep_bleu = ([''uno'', ''due''], [[''yi'', ''er'']], ''zh'')\<rparr>]
   \<and> (\<exists>reports'. score_groups recording_bleu (rev example_items) = Inr reports'
         \<and> (\<lambda>rep. (rep_source rep, rep_tokenize rep, rep_cnt rep)) ` set reports'
             = {(''covost_en_de_dev'', ''13a'', 2), (''covost_en_zh_dev'', ''zh'', 2)})
   \<and> (\<exists>out. main_run example_load example_processor faithful_infer recording_bleu
               (example_args 2 (- 1)) 2 = Inr out
         \<and> scores out
             = Inr [\<lparr>rep_source = ''covost_en_de_dev'', rep_tokenize = ''13a'', rep_cnt = 3,
                     rep_bleu = ([''hyp'', ''hyp'', ''hyp''], [[''eins'', ''zwei'', ''drei'']], ''13a'')\<rparr>])"
proof -
  let ?triple = "\<lambda>rep :: (string list \<times> string list list \<times> string) report.
      (rep_source rep, rep_tokenize rep, rep_cnt rep)"
  have wf: "\<forall>it\<in>set example_items. CHR ''_'' \<in> set (r_source it)"
    by (simp add: example_items_def)
  from group_scoring [where results = example_items and corpus_bleu = recording_bleu,
      THEN conjunct2, THEN conjunct1, THEN mp, OF wf]
  obtain reports
    where r: "score_groups recording_bleu example_items = Inr reports"
      and keys: "map rep_source reports = group_keys example_items"
      and each: "\<forall>rep\<in>set reports.
              (\<exists>seg. py_index (py_split CHR ''_'' (rep_source rep)) (- 2) = Inr seg
                   \<and> rep_tokenize rep = (if seg = ''ja'' then ''ja-mecab''
                                          else if seg = ''zh'' then ''zh'' else ''13a''))
              \<and> rep_cnt rep = int (length (filter (\<lambda>it. r_source it = rep_source rep) example_items))
              \<and> rep_bleu rep
                  = recording_bleu (map r_response (filter (\<lambda>it. r_source it = rep_source rep) example_items))
                      [map r_gt (filter (\<lambda>it. r_source it = rep_source rep) example_items)]
                      (rep_tokenize rep)"
      and p: "\<forall>results'. mset results' = mset example_items \<longrightarrow>
           (\<exists>reports'. score_groups recording_bleu results' = Inr reports'
              \<and> ?triple ` set reports' = ?triple ` set reports)"
    by (elim exE conjE)
  have gk: "group_keys example_items = [''covost_en_de_dev'', ''covost_en_zh_dev'']"
    by (simp add: group_keys_def example_items_def)
  from keys gk obtain r1 r2 where rs: "reports = [r1, r2]"
    and s1: "rep_source r1 = ''covost_en_de_dev''" and s2: "rep_source r2 = ''covost_en_zh_dev''"
    by (auto simp: map_eq_Cons_conv)
  have seg1: "py_index (py_split CHR ''_'' ''covost_en_de_dev'') (- 2) = Inr ''de''" by code_simp
  have seg2: "py_index (py_split CHR ''_'' ''covost_en_zh_dev'') (- 2) = Inr ''zh''" by code_simp
  from each rs s1 seg1 have e1: "r1 = \<lparr>rep_source = ''covost_en_de_dev'', rep_tokenize = ''13a'', rep_cnt = 2,
           rep_bleu = ([''one'', ''two''], [[''eins'', ''zwei'']], ''13a'')\<rparr>"
    by (cases r1) (simp add: example_items_def recording_bleu_def)
  from each rs s2 seg2 have e2: "r2 = \<lparr>rep_source = ''covost_en_zh_dev'', rep_tokenize = ''zh'', rep_cnt = 2,
           rep_bleu = ([''uno'', ''due''], [[''yi'', ''er'']], ''zh'')\<rparr>"
    by (cases r2) (simp add: example_items_def recording_bleu_def)
  have A: "score_groups recording_bleu example_items =
     Inr [\<lparr>rep_source = ''covost_en_de_dev'', rep_tokenize = ''13a'', rep_cnt = 2,
           rep_bleu = ([''one'', ''two''], [[''eins'', ''zwei'']], ''13a'')\<rparr>,
          \<lparr>rep_source = ''covost_en_zh_dev'', rep_tokenize = ''zh'', rep_cnt = 2,
           rep_bleu = ([''uno'', ''due''], [[''yi'', ''er'']], ''zh'')\<rparr>]"
    using r rs e1 e2 by simp
  have "mset (rev example_items) = mset example_items" by simp
  with p have "\<exists>reports'. score_groups recording_bleu (rev example_items) = Inr reports'
              \<and> ?triple ` set reports' = ?triple ` set reports"
    by blast
  then have B: "\<exists>reports'. score_groups recording_bleu (rev example_items) = Inr reports'
         \<and> ?triple ` set reports'
             = {(''covost_en_de_dev'', ''13a'', 2), (''covost_en_zh_dev'', ''zh'', 2)}"
    using rs e1 e2 by simp
  let ?out = "\<lparr>results_file =
        [\<lparr>r_gt = ''eins'', r_response = ''hyp'', r_source = ''covost_en_de_dev'', r_audio_path = ''a.wav''\<rparr>,
         \<lparr>r_gt = ''zwei'', r_response = ''hyp'', r_source = ''covost_en_de_dev'', r_audio_path = ''b.wav''\<rparr>,
         \<lparr>r_gt = ''drei'', r_response = ''hyp'', r_source = ''covost_en_de_dev'', r_audio_path = ''c.wav''\<rparr>],
      scores = Inr [\<lparr>rep_source = ''covost_en_de_dev'', rep_tokenize = ''13a'', rep_cnt = 3,
                     rep_bleu = ([''hyp'', ''hyp'', ''hyp''], [[''eins'', ''zwei'', ''drei'']], ''13a'')\<rparr>]\<rparr>"
  have out: "main_run example_load example_processor faithful_infer recording_bleu
                       (example_args 2 (- 1)) 2 = Inr ?out"
    by code_simp
  have pos: "(0::int) < 2" by simp
  from group_scoring [where ld = example_load and processor = example_processor
      and infer = faithful_infer and corpus_bleu = recording_bleu and a = "example_args 2 (- 1)"
      and w = 2 and out = ?out, THEN conjunct1, THEN mp, OF conjI, OF pos out]
  obtain reports2 where "scores ?out = Inr reports2" by (elim exE conjE)
  then have C: "\<exists>out. main_run example_load example_processor faithful_infer recording_bleu
               (example_args 2 (- 1)) 2 = Inr out
         \<and> scores out
             = Inr [\<lparr>rep_source = ''covost_en_de_dev'', rep_tokenize = ''13a'', rep_cnt = 3,
                     rep_bleu = ([''hyp'', ''hyp'', ''hyp''], [[''eins'', ''zwei'', ''drei'']], ''13a'')\<rparr>]"
    using out by (intro exI [of _ ?out]) simp
  from A B C show ?thesis by (intro conjI)
qed

section \<open>Failures of the scoring\<close>







text \<open>
  Outside the runs: for the tag \<open>covost\<close>, which no dataset of the program carries, the
  scoring loop taken by itself ends with the index error, after the results file has been
  written.
\<close>

lemma tag_without_piece_not_scored:
  "tokenize_of ''covost'' = Inl IndexError
   \<and> score_groups example_bleu
        [\<lparr>r_gt = ''eins'', r_response = ''one'', r_source = ''covost'', r_audio_path = ''a.wav''\<rparr>]
       = Inl IndexError
   \<and> evaluate example_bleu
        [\<lparr>gts = [''eins''], sources = [''covost''], rets = [''one''], audio_paths = [''a.wav'']\<rparr>]
       = \<lparr>results_file =
            [\<lparr>r_gt = ''eins'', r_response = ''one'', r_source = ''covost'', r_audio_path = ''a.wav''\<rparr>],
          scores = Inl IndexError\<rparr>"
  by code_simp

end
